theory Spec2Isabelle
  imports Complex_Main "HOL-Library.Multiset"
begin

section \<open>Daily Lifestyle Tracker: program calendar and statistics aggregation\<close>

text \<open>
  A shallow embedding of \<^verbatim>\<open>src/app.py\<close>: the program calendar
  (\<^verbatim>\<open>get_program_info\<close>, \<^verbatim>\<open>get_week_number\<close>, \<^verbatim>\<open>is_strength_available\<close>),
  the aggregator \<^verbatim>\<open>get_summary_stats\<close>, the save step of \<^verbatim>\<open>show_daily_entry\<close> and
  the weekly breakdown of \<^verbatim>\<open>show_monthly_summary\<close>.

  Conventions of the model.
  \<^item> A Python exception is a value \<open>Inl e\<close> of a sum type; a normal return is \<open>Inr v\<close>.
  \<^item> A Python \<^verbatim>\<open>dict\<close> is an association list in iteration (insertion) order, because
    \<^verbatim>\<open>get_summary_stats\<close> reads \<^verbatim>\<open>weights[-1]\<close> and \<^verbatim>\<open>weights[0]\<close> in that order.
  \<^item> In \<^verbatim>\<open>get_summary_stats\<close> and the save step, Python numbers (\<^verbatim>\<open>int\<close> and \<^verbatim>\<open>float\<close>) are
    exact rationals and \<^verbatim>\<open>/\<close> is exact division: the rounding of binary floating point
    is not part of that model. The monthly view compares sums of results of the
    aggregator, where the rounding decides; it has a second model of the aggregator,
    \<open>get_summary_stats_py\<close>, on records whose numbers are typed as ints and floats and
    whose float operations round.
\<close>

datatype error = ValueError | KeyError

type_synonym 'v pydict = "(string \<times> 'v) list"

subsection \<open>Calendar dates (\<^verbatim>\<open>datetime.date\<close>)\<close>

text \<open>
  A \<^verbatim>\<open>date\<close> object has the attributes \<^verbatim>\<open>year\<close>, \<^verbatim>\<open>month\<close>, \<^verbatim>\<open>day\<close>. The library builds
  only valid ones (\<^verbatim>\<open>_check_date_fields\<close>); subtraction of two dates is the difference of
  their proleptic Gregorian ordinals (\<^verbatim>\<open>date.__sub__\<close>, \<^verbatim>\<open>date.toordinal\<close>), and adding a
  \<^verbatim>\<open>timedelta\<close> goes through \<^verbatim>\<open>date.fromordinal\<close>.
\<close>

datatype pydate = Date (year: int) (month: int) (day: int)

definition is_leap :: "int \<Rightarrow> bool" where
  "is_leap y = (y mod 4 = 0 \<and> (y mod 100 \<noteq> 0 \<or> y mod 400 = 0))"

definition DAYS_IN_MONTH :: "int list" where
  "DAYS_IN_MONTH = [-1, 31, 28, 31, 30, 31, 30, 31, 31, 30, 31, 30, 31]"

definition DAYS_BEFORE_MONTH :: "int list" where
  "DAYS_BEFORE_MONTH = [-1, 0, 31, 59, 90, 120, 151, 181, 212, 243, 273, 304, 334]"

definition days_before_year :: "int \<Rightarrow> int" where
  "days_before_year y = (let y1 = y - 1 in y1 * 365 + y1 div 4 - y1 div 100 + y1 div 400)"

definition days_in_month :: "int \<Rightarrow> int \<Rightarrow> int" where
  "days_in_month y m = (if m = 2 \<and> is_leap y then 29 else DAYS_IN_MONTH ! nat m)"

definition days_before_month :: "int \<Rightarrow> int \<Rightarrow> int" where
  "days_before_month y m = DAYS_BEFORE_MONTH ! nat m + (if m > 2 \<and> is_leap y then 1 else 0)"

definition valid_date :: "pydate \<Rightarrow> bool" where
  "valid_date d = (1 \<le> year d \<and> year d \<le> 9999 \<and> 1 \<le> month d \<and> month d \<le> 12 \<and>
                   1 \<le> day d \<and> day d \<le> days_in_month (year d) (month d))"

definition toordinal :: "pydate \<Rightarrow> int" where
  "toordinal d = days_before_year (year d) + days_before_month (year d) (month d) + day d"

definition fromordinal :: "int \<Rightarrow> pydate" where
  "fromordinal n0 =
     (let n = n0 - 1;
          n400 = n div 146097; n = n mod 146097;
          yr = n400 * 400 + 1;
          n100 = n div 36524; n = n mod 36524;
          n4 = n div 1461; n = n mod 1461;
          n1 = n div 365; n = n mod 365;
          yr = yr + n100 * 100 + n4 * 4 + n1
      in if n1 = 4 \<or> n100 = 4 then Date (yr - 1) 12 31
         else
           let leapyear = (n1 = 3 \<and> (n4 \<noteq> 24 \<or> n100 = 3));
               mo = (n + 50) div 32;
               preceding = DAYS_BEFORE_MONTH ! nat mo + (if mo > 2 \<and> leapyear then 1 else 0)
           in if preceding > n
              then let mo' = mo - 1;
                       preceding' = preceding -
                         (DAYS_IN_MONTH ! nat mo' + (if mo' = 2 \<and> leapyear then 1 else 0))
                   in Date yr mo' (n - preceding' + 1)
              else Date yr mo (n - preceding + 1))"

text \<open>Dates compare as the tuples \<^verbatim>\<open>(year, month, day)\<close>.\<close>

definition date_less :: "pydate \<Rightarrow> pydate \<Rightarrow> bool" where
  "date_less a b = (year a < year b \<or> (year a = year b \<and>
                      (month a < month b \<or> (month a = month b \<and> day a < day b))))"

definition date_le :: "pydate \<Rightarrow> pydate \<Rightarrow> bool" where
  "date_le a b = (a = b \<or> date_less a b)"

subsection \<open>\<^verbatim>\<open>datetime.strptime(s, "%Y-%m-%d")\<close>\<close>

text \<open>
  The library turns the format into the regular expression
  \<^verbatim>\<open>(\d\d\d\d)-(1[0-2]|0[1-9]|[1-9])-(3[0-1]|[1-2]\d|0[1-9]|[1-9]| [1-9])\<close>,
  requires it to match the whole string, and then builds the date, which checks the
  fields. Every failure is a \<^verbatim>\<open>ValueError\<close>. Digits are the ASCII digits here.
\<close>

definition is_digit :: "char \<Rightarrow> bool" where
  "is_digit c = (c \<in> set ''0123456789'')"

definition digit_val :: "char \<Rightarrow> int" where
  "digit_val c = int (of_char c) - 48"

fun parse_year :: "string \<Rightarrow> int option" where
  "parse_year [a, b, c, d] =
     (if is_digit a \<and> is_digit b \<and> is_digit c \<and> is_digit d
      then Some (1000 * digit_val a + 100 * digit_val b + 10 * digit_val c + digit_val d)
      else None)"
| "parse_year _ = None"

fun parse_month :: "string \<Rightarrow> int option" where
  "parse_month [a, b] =
     (if a = CHR ''1'' \<and> b \<in> set ''012'' then Some (10 + digit_val b)
      else if a = CHR ''0'' \<and> b \<in> set ''123456789'' then Some (digit_val b)
      else None)"
| "parse_month [a] = (if a \<in> set ''123456789'' then Some (digit_val a) else None)"
| "parse_month _ = None"

fun parse_day :: "string \<Rightarrow> int option" where
  "parse_day [a, b] =
     (if a = CHR ''3'' \<and> b \<in> set ''01'' then Some (30 + digit_val b)
      else if a \<in> set ''12'' \<and> is_digit b then Some (10 * digit_val a + digit_val b)
      else if a = CHR ''0'' \<and> b \<in> set ''123456789'' then Some (digit_val b)
      else if a = CHR '' '' \<and> b \<in> set ''123456789'' then Some (digit_val b)
      else None)"
| "parse_day [a] = (if a \<in> set ''123456789'' then Some (digit_val a) else None)"
| "parse_day _ = None"

definition strptime :: "string \<Rightarrow> error + pydate" where
  "strptime s =
     (if length s < 5 \<or> s ! 4 \<noteq> CHR ''-'' then Inl ValueError
      else let rest = drop 5 s;
               ms = takeWhile (\<lambda>c. c \<noteq> CHR ''-'') rest;
               ds = drop (Suc (length ms)) rest
           in if length ms = length rest then Inl ValueError
              else case (parse_year (take 4 s), parse_month ms, parse_day ds) of
                     (Some y, Some m, Some d) \<Rightarrow>
                        if valid_date (Date y m d) then Inr (Date y m d) else Inl ValueError
                   | _ \<Rightarrow> Inl ValueError)"

subsection \<open>Program calendar\<close>

text \<open>
  \<^verbatim>\<open>start_date + timedelta(weeks=30)\<close> is \<^verbatim>\<open>fromordinal(start_date.toordinal() + 210)\<close>;
  the library's \<^verbatim>\<open>OverflowError\<close> branch needs an ordinal above 3652059 and is not
  reachable from this constant.
\<close>

definition get_program_info :: "pydate \<times> pydate" where
  "get_program_info =
     (let start_date = Date 2025 6 2;
          end_date = fromordinal (toordinal start_date + 7 * 30)
      in (start_date, end_date))"

text \<open>The argument of \<^verbatim>\<open>get_week_number\<close> is a \<^verbatim>\<open>date\<close> or a \<^verbatim>\<open>str\<close>.\<close>

datatype date_arg = DateObj pydate | DateStr string

definition get_week_number :: "date_arg \<Rightarrow> error + int" where
  "get_week_number target_date =
     (let (start_date, _) = get_program_info
      in case (case target_date of DateStr s \<Rightarrow> strptime s | DateObj d \<Rightarrow> Inr d) of
           Inl e \<Rightarrow> Inl e
         | Inr d \<Rightarrow>
             let days_diff = toordinal d - toordinal start_date;
                 week_num = days_diff div 7 + 1
             in Inr (max 1 (min 30 week_num)))"

definition is_strength_available :: "date_arg \<Rightarrow> error + bool" where
  "is_strength_available target_date =
     (case get_week_number target_date of
        Inl e \<Rightarrow> Inl e
      | Inr week_num \<Rightarrow> Inr (week_num \<ge> 3))"


subsection \<open>Decimal strings: \<^verbatim>\<open>str(i)\<close> and \<^verbatim>\<open>strftime("%Y-%m-%d")\<close>\<close>

definition digit_char :: "nat \<Rightarrow> char" where
  "digit_char n = char_of (48 + n)"

function str_of_nat :: "nat \<Rightarrow> string" where
  "str_of_nat n = (if n < 10 then [digit_char n] else str_of_nat (n div 10) @ [digit_char (n mod 10)])"
  by pat_completeness auto
termination
  by (relation "measure id") auto

definition zfill :: "nat \<Rightarrow> string \<Rightarrow> string" where
  "zfill w s = replicate (w - length s) (CHR ''0'') @ s"

text \<open>
  \<^verbatim>\<open>%Y\<close> is the year in decimal (four digits for the years 1000 to 9999, which include
  every date the date widget can return), \<^verbatim>\<open>%m\<close> and \<^verbatim>\<open>%d\<close> are two digits.
\<close>

definition strftime :: "pydate \<Rightarrow> string" where
  "strftime d = zfill 4 (str_of_nat (nat (year d))) @ ''-'' @
                zfill 2 (str_of_nat (nat (month d))) @ ''-'' @
                zfill 2 (str_of_nat (nat (day d)))"

subsection \<open>Daily records\<close>

text \<open>
  A daily record is a \<^verbatim>\<open>dict\<close> with the keys below. A field is \<open>None\<close> when the key is
  missing or holds \<^verbatim>\<open>None\<close> (JSON \<^verbatim>\<open>null\<close>): \<^verbatim>\<open>data.get(k, 0) or 0\<close>,
  \<^verbatim>\<open>data.get('strength_training', False)\<close> and \<^verbatim>\<open>data.get('weight')\<close> do not tell the two
  apart. For \<^verbatim>\<open>week\<close>, \<open>None\<close> is the missing key.
\<close>

record daily_record =
  date :: "string option"
  week :: "int option"
  treadmill_time :: "rat option"
  steps :: "rat option"
  lunch_walk_time :: "rat option"
  strength_training :: "bool option"
  weight :: "rat option"
  blood_sugar :: "rat option"
  mood_energy :: "string option"

text \<open>The record with no key at all, \<^verbatim>\<open>{}\<close>.\<close>

definition blank_record :: daily_record where
  "blank_record = \<lparr> date = None, week = None, treadmill_time = None, steps = None,
                     lunch_walk_time = None, strength_training = None, weight = None,
                     blood_sugar = None, mood_energy = None \<rparr>"

subsection \<open>Dictionaries\<close>

text \<open>\<^verbatim>\<open>d[k]\<close> raises \<^verbatim>\<open>KeyError\<close> on a missing key; \<^verbatim>\<open>d[k] = v\<close> replaces the value of
  an existing key in place and appends a new key at the end.\<close>

definition getitem :: "'v pydict \<Rightarrow> string \<Rightarrow> error + 'v" where
  "getitem d k = (case map_of d k of None \<Rightarrow> Inl KeyError | Some v \<Rightarrow> Inr v)"

fun setitem :: "'v pydict \<Rightarrow> string \<Rightarrow> 'v \<Rightarrow> 'v pydict" where
  "setitem [] k v = [(k, v)]"
| "setitem ((k', v') # rest) k v =
     (if k' = k then (k, v) # rest else (k', v') # setitem rest k v)"

subsection \<open>The aggregator \<^verbatim>\<open>get_summary_stats\<close>\<close>

text \<open>\<^verbatim>\<open>x or 0\<close> for a number or \<^verbatim>\<open>None\<close>.\<close>

definition or_0 :: "rat option \<Rightarrow> rat" where
  "or_0 v = (case v of None \<Rightarrow> 0 | Some x \<Rightarrow> if x \<noteq> 0 then x else 0)"

text \<open>The truth value of \<^verbatim>\<open>data.get('strength_training', False)\<close>.\<close>

definition truthy :: "bool option \<Rightarrow> bool" where
  "truthy v = (case v of None \<Rightarrow> False | Some b \<Rightarrow> b)"

text \<open>The loop of lines 81 to 88, with the two lists as accumulators.\<close>

fun collect :: "daily_record list \<Rightarrow> rat list \<times> rat list \<Rightarrow> rat list \<times> rat list" where
  "collect [] acc = acc"
| "collect (data # rest) (weights, blood_sugars) =
     collect rest
       ((case weight data of
           Some w \<Rightarrow> if w > 0 then weights @ [w] else weights
         | None \<Rightarrow> weights),
        (case blood_sugar data of
           Some b \<Rightarrow> if b > 0 then blood_sugars @ [b] else blood_sugars
         | None \<Rightarrow> blood_sugars))"

definition get_summary_stats :: "daily_record pydict \<Rightarrow> rat pydict" where
  "get_summary_stats data_dict =
     (if data_dict = [] then []
      else
        let vals = map snd data_dict;
            total_days = length data_dict;
            total_treadmill = sum_list (map (\<lambda>data. or_0 (treadmill_time data)) vals);
            total_steps = sum_list (map (\<lambda>data. or_0 (steps data)) vals);
            total_lunch_walks = sum_list (map (\<lambda>data. or_0 (lunch_walk_time data)) vals);
            strength_sessions = length (filter (\<lambda>data. truthy (strength_training data)) vals);
            total_exercise_time = total_treadmill + (total_steps / 100) + total_lunch_walks;
            (weights, blood_sugars) = collect vals ([], [])
        in [(''total_days'', of_nat total_days),
            (''total_treadmill'', total_treadmill),
            (''avg_treadmill'', if total_days > 0 then total_treadmill / of_nat total_days else 0),
            (''total_steps'', total_steps),
            (''avg_steps'', if total_days > 0 then total_steps / of_nat total_days else 0),
            (''total_lunch_walks'', total_lunch_walks),
            (''avg_lunch_walks'', if total_days > 0 then total_lunch_walks / of_nat total_days else 0),
            (''total_exercise_time'', total_exercise_time),
            (''avg_exercise_time'', if total_days > 0 then total_exercise_time / of_nat total_days else 0),
            (''strength_sessions'', of_nat strength_sessions),
            (''avg_weight'', if weights \<noteq> [] then sum_list weights / of_nat (length weights) else 0),
            (''latest_weight'', if weights \<noteq> [] then last weights else 0),
            (''avg_blood_sugar'',
               if blood_sugars \<noteq> [] then sum_list blood_sugars / of_nat (length blood_sugars) else 0),
            (''weight_change'', if length weights > 1 then last weights - hd weights else 0)])"

text \<open>
  The present values of an optional field, in the order of the records: those that are
  there and strictly positive.
\<close>

definition present :: "rat option \<Rightarrow> bool" where
  "present v = (case v of None \<Rightarrow> False | Some x \<Rightarrow> 0 < x)"

definition present_values :: "(daily_record \<Rightarrow> rat option) \<Rightarrow> daily_record list \<Rightarrow> rat list" where
  "present_values f vals = map (\<lambda>data. the (f data)) (filter (\<lambda>data. present (f data)) vals)"

subsection \<open>Saving a daily entry (\<^verbatim>\<open>show_daily_entry\<close>)\<close>

text \<open>
  The values the widgets of the form return. A number input whose stored value is
  \<^verbatim>\<open>None\<close> can return \<^verbatim>\<open>None\<close>, so weight and blood sugar are optional.
\<close>

record entry_form =
  in_treadmill_time :: rat
  in_steps :: rat
  in_lunch_walk_time :: rat
  in_strength_training :: bool
  in_weight :: "rat option"
  in_blood_sugar :: "rat option"
  in_mood_energy :: string
  submitted :: bool

text \<open>\<^verbatim>\<open>x if x and x > 0 else None\<close>.\<close>

definition positive_or_None :: "rat option \<Rightarrow> rat option" where
  "positive_or_None v =
     (case v of None \<Rightarrow> None | Some x \<Rightarrow> if x \<noteq> 0 \<and> x > 0 then Some x else None)"

text \<open>
  The session state \<^verbatim>\<open>st.session_state.tracker_data\<close> is passed in and returned. Writing
  the file (\<^verbatim>\<open>save_data\<close>) and the display are not part of the model.
\<close>

definition show_daily_entry ::
  "daily_record pydict \<Rightarrow> pydate \<Rightarrow> entry_form \<Rightarrow> error + daily_record pydict" where
  "show_daily_entry tracker_data selected_date form =
     (let date_str = strftime selected_date
      in case get_week_number (DateObj selected_date) of
           Inl e \<Rightarrow> Inl e
         | Inr week_num \<Rightarrow>
            (case is_strength_available (DateObj selected_date) of
               Inl e \<Rightarrow> Inl e
             | Inr available \<Rightarrow>
                 let strength = (if available then in_strength_training form else False)
                 in if submitted form
                    then Inr (setitem tracker_data date_str
                           \<lparr> date = Some date_str,
                             week = Some week_num,
                             treadmill_time = Some (in_treadmill_time form),
                             steps = Some (in_steps form),
                             lunch_walk_time = Some (in_lunch_walk_time form),
                             strength_training = Some strength,
                             weight = positive_or_None (in_weight form),
                             blood_sugar = positive_or_None (in_blood_sugar form),
                             mood_energy = Some (in_mood_energy form) \<rparr>)
                    else Inr tracker_data))"

subsection \<open>Python's two kinds of numbers\<close>

text \<open>
  The monthly view compares sums of results of the aggregator, so for it the numbers are
  modelled with their types. An \<^verbatim>\<open>int\<close> is exact. A \<^verbatim>\<open>float\<close> is a binary64 value, given by
  the rational number it denotes. Arithmetic on two ints is exact, except the true division
  \<^verbatim>\<open>/\<close>, which returns the float nearest to the quotient; every operation with a float
  converts an int operand to a float and rounds the result to the nearest float, ties to
  even. Infinities, NaN and \<^verbatim>\<open>OverflowError\<close> are left out: they need magnitudes of
  \<open>2 ^ 1024\<close>.
\<close>

datatype pynum = PyInt int | PyFloat rat

text \<open>\<^verbatim>\<open>int.bit_length\<close>, and the exponent \<open>e\<close> with \<open>2 ^ e \<le> x < 2 ^ (e + 1)\<close> of a positive \<open>x\<close>.\<close>

function bit_length :: "int \<Rightarrow> int" where
  "bit_length n = (if n \<le> 0 then 0 else bit_length (n div 2) + 1)"
  by pat_completeness auto
termination
  by (relation "measure nat") auto

definition pow2 :: "int \<Rightarrow> rat" where
  "pow2 e = (if 0 \<le> e then 2 ^ nat e else 1 / 2 ^ nat (- e))"

definition binade :: "rat \<Rightarrow> int" where
  "binade x =
     (let (p, q) = quotient_of x;
          e = bit_length p - bit_length q
      in if pow2 e \<le> x then e else e - 1)"

definition round_half_even :: "rat \<Rightarrow> int" where
  "round_half_even x =
     (let f = \<lfloor>x\<rfloor>; r = x - of_int f
      in if r < 1 / 2 then f else if 1 / 2 < r then f + 1 else if even f then f else f + 1)"

text \<open>
  The binary64 value nearest to \<open>x\<close>: 53 significant bits, and below \<open>2 ^ (- 1022)\<close> the
  fixed spacing \<open>2 ^ (- 1074)\<close> of the subnormal numbers.
\<close>

definition round_double :: "rat \<Rightarrow> rat" where
  "round_double x =
     (if x = 0 then 0
      else let e = max (binade \<bar>x\<bar>) (- 1022); ulp = pow2 (e - 52)
           in of_int (round_half_even (x / ulp)) * ulp)"

definition num_value :: "pynum \<Rightarrow> rat" where
  "num_value a = (case a of PyInt i \<Rightarrow> of_int i | PyFloat x \<Rightarrow> x)"

text \<open>\<^verbatim>\<open>float(a)\<close>.\<close>

definition to_float :: "pynum \<Rightarrow> rat" where
  "to_float a = (case a of PyInt i \<Rightarrow> round_double (of_int i) | PyFloat x \<Rightarrow> x)"

fun py_add :: "pynum \<Rightarrow> pynum \<Rightarrow> pynum" where
  "py_add (PyInt x) (PyInt y) = PyInt (x + y)"
| "py_add a b = PyFloat (round_double (to_float a + to_float b))"

fun py_sub :: "pynum \<Rightarrow> pynum \<Rightarrow> pynum" where
  "py_sub (PyInt x) (PyInt y) = PyInt (x - y)"
| "py_sub a b = PyFloat (round_double (to_float a - to_float b))"

text \<open>
  \<^verbatim>\<open>a / b\<close>. The aggregator divides by 100 and by counts that it has tested to be
  positive, so the \<^verbatim>\<open>ZeroDivisionError\<close> of a zero divisor has no branch here.
\<close>

fun py_truediv :: "pynum \<Rightarrow> pynum \<Rightarrow> pynum" where
  "py_truediv (PyInt x) (PyInt y) = PyFloat (round_double (of_int x / of_int y))"
| "py_truediv a b = PyFloat (round_double (to_float a / to_float b))"

text \<open>
  \<^verbatim>\<open>sum(xs)\<close> adds from the left, starting with the int 0. (From Python 3.12 on a sum of
  floats is compensated and can differ in the last bit; a sum of ints is exact in every
  version.)
\<close>

definition py_sum :: "pynum list \<Rightarrow> pynum" where
  "py_sum xs = foldl py_add (PyInt 0) xs"

subsection \<open>The aggregator on typed records\<close>

text \<open>
  The daily record with the types of its numbers: the entry form stores ints for the
  treadmill time, the steps and the lunch walk time (number inputs with int bounds) and
  floats for the weight and the blood sugar; JSON keeps the distinction.
\<close>

record py_record =
  py_date :: "string option"
  py_week :: "int option"
  py_treadmill_time :: "pynum option"
  py_steps :: "pynum option"
  py_lunch_walk_time :: "pynum option"
  py_strength_training :: "bool option"
  py_weight :: "pynum option"
  py_blood_sugar :: "pynum option"
  py_mood_energy :: "string option"

definition py_or_0 :: "pynum option \<Rightarrow> pynum" where
  "py_or_0 v = (case v of None \<Rightarrow> PyInt 0 | Some x \<Rightarrow> if num_value x \<noteq> 0 then x else PyInt 0)"

fun collect_py ::
  "py_record list \<Rightarrow> pynum list \<times> pynum list \<Rightarrow> pynum list \<times> pynum list" where
  "collect_py [] acc = acc"
| "collect_py (data # rest) (weights, blood_sugars) =
     collect_py rest
       ((case py_weight data of
           Some w \<Rightarrow> if num_value w > 0 then weights @ [w] else weights
         | None \<Rightarrow> weights),
        (case py_blood_sugar data of
           Some b \<Rightarrow> if num_value b > 0 then blood_sugars @ [b] else blood_sugars
         | None \<Rightarrow> blood_sugars))"

text \<open>\<^verbatim>\<open>get_summary_stats\<close>, lines 64 to 105, with the typed numbers.\<close>

definition get_summary_stats_py :: "py_record pydict \<Rightarrow> pynum pydict" where
  "get_summary_stats_py data_dict =
     (if data_dict = [] then []
      else
        let vals = map snd data_dict;
            total_days = length data_dict;
            total_treadmill = py_sum (map (\<lambda>data. py_or_0 (py_treadmill_time data)) vals);
            total_steps = py_sum (map (\<lambda>data. py_or_0 (py_steps data)) vals);
            total_lunch_walks = py_sum (map (\<lambda>data. py_or_0 (py_lunch_walk_time data)) vals);
            strength_sessions =
              length (filter (\<lambda>data. truthy (py_strength_training data)) vals);
            total_exercise_time =
              py_add (py_add total_treadmill (py_truediv total_steps (PyInt 100)))
                     total_lunch_walks;
            (weights, blood_sugars) = collect_py vals ([], []);
            days = PyInt (int total_days)
        in [(''total_days'', days),
            (''total_treadmill'', total_treadmill),
            (''avg_treadmill'', if total_days > 0 then py_truediv total_treadmill days else PyInt 0),
            (''total_steps'', total_steps),
            (''avg_steps'', if total_days > 0 then py_truediv total_steps days else PyInt 0),
            (''total_lunch_walks'', total_lunch_walks),
            (''avg_lunch_walks'',
               if total_days > 0 then py_truediv total_lunch_walks days else PyInt 0),
            (''total_exercise_time'', total_exercise_time),
            (''avg_exercise_time'',
               if total_days > 0 then py_truediv total_exercise_time days else PyInt 0),
            (''strength_sessions'', PyInt (int strength_sessions)),
            (''avg_weight'',
               if weights \<noteq> [] then py_truediv (py_sum weights) (PyInt (int (length weights)))
               else PyInt 0),
            (''latest_weight'', if weights \<noteq> [] then last weights else PyInt 0),
            (''avg_blood_sugar'',
               if blood_sugars \<noteq> []
               then py_truediv (py_sum blood_sugars) (PyInt (int (length blood_sugars)))
               else PyInt 0),
            (''weight_change'',
               if length weights > 1 then py_sub (last weights) (hd weights) else PyInt 0)])"

subsection \<open>The monthly view (\<^verbatim>\<open>show_monthly_summary\<close>)\<close>

text \<open>Lines 367 to 371: the records of the selected month.\<close>

fun month_data_of :: "py_record pydict \<Rightarrow> int \<Rightarrow> int \<Rightarrow> error + py_record pydict" where
  "month_data_of [] y m = Inr []"
| "month_data_of ((date_str, data) # rest) y m =
     (case strptime date_str of
        Inl e \<Rightarrow> Inl e
      | Inr date_obj \<Rightarrow>
          (case month_data_of rest y m of
             Inl e \<Rightarrow> Inl e
           | Inr month_data \<Rightarrow>
               Inr (if year date_obj = y \<and> month date_obj = m
                    then (date_str, data) # month_data else month_data)))"

text \<open>
  Lines 395 to 400: \<^verbatim>\<open>weekly_data\<close> maps a week to the list of its records. The default
  of \<^verbatim>\<open>data.get('week', get_week_number(date_str))\<close> is evaluated before the lookup, so a
  key that does not parse raises even when the record has a week.
\<close>

fun append_week ::
  "(int \<times> py_record list) list \<Rightarrow> int \<Rightarrow> py_record \<Rightarrow> (int \<times> py_record list) list" where
  "append_week [] wk data = [(wk, [data])]"
| "append_week ((wk', entries) # rest) wk data =
     (if wk' = wk then (wk', entries @ [data]) # rest
      else (wk', entries) # append_week rest wk data)"

fun group_weeks ::
  "py_record pydict \<Rightarrow> (int \<times> py_record list) list
     \<Rightarrow> error + (int \<times> py_record list) list" where
  "group_weeks [] weekly_data = Inr weekly_data"
| "group_weeks ((date_str, data) # rest) weekly_data =
     (case get_week_number (DateStr date_str) of
        Inl e \<Rightarrow> Inl e
      | Inr default_week \<Rightarrow>
          let wk = (case py_week data of Some w \<Rightarrow> w | None \<Rightarrow> default_week)
          in group_weeks rest (append_week weekly_data wk data))"

text \<open>
  Lines 402 to 413: one aggregation per week, in ascending order of the week. The row
  shown to the user formats some fields of \<^verbatim>\<open>week_stats\<close>; the model keeps
  \<^verbatim>\<open>week_stats\<close> itself.
\<close>

definition enumerate_days :: "py_record list \<Rightarrow> py_record pydict" where
  "enumerate_days week_entries =
     map (\<lambda>(i, entry). (''day_'' @ str_of_nat i, entry)) (enumerate 0 week_entries)"

definition weekly_summary :: "(int \<times> py_record list) list \<Rightarrow> (int \<times> pynum pydict) list" where
  "weekly_summary weekly_data =
     map (\<lambda>(wk, week_entries). (wk, get_summary_stats_py (enumerate_days week_entries)))
         (sort_key fst weekly_data)"

text \<open>
  The view for a selected year and month: \<open>None\<close> when nothing is shown, else the month's
  statistics and the weekly rows.
\<close>

definition show_monthly_summary ::
  "py_record pydict \<Rightarrow> int \<Rightarrow> int \<Rightarrow> error + (pynum pydict \<times> (int \<times> pynum pydict) list) option" where
  "show_monthly_summary tracker_data y m =
     (if tracker_data = [] then Inr None
      else case month_data_of tracker_data y m of
             Inl e \<Rightarrow> Inl e
           | Inr month_data \<Rightarrow>
               if month_data = [] then Inr None
               else let stats = get_summary_stats_py month_data
                    in (case group_weeks month_data [] of
                          Inl e \<Rightarrow> Inl e
                        | Inr weekly_data \<Rightarrow> Inr (Some (stats, weekly_summary weekly_data))))"

subsection \<open>Auxiliary notions for the statements\<close>

text \<open>
  The sum of a numeric field over the records, a missing value counting as 0, and the
  number of records whose strength training flag is true.
\<close>

definition field_total :: "(daily_record \<Rightarrow> rat option) \<Rightarrow> daily_record list \<Rightarrow> rat" where
  "field_total f vals = (\<Sum>data\<leftarrow>vals. case f data of None \<Rightarrow> 0 | Some x \<Rightarrow> x)"

definition strength_count :: "daily_record list \<Rightarrow> nat" where
  "strength_count vals = length (filter (\<lambda>data. strength_training data = Some True) vals)"

text \<open>The summary of a non-empty input, written over the values of the mapping.\<close>

definition summary_of :: "daily_record list \<Rightarrow> rat pydict" where
  "summary_of vals =
     (let n = length vals;
          T = field_total treadmill_time vals;
          S = field_total steps vals;
          L = field_total lunch_walk_time vals;
          ws = present_values weight vals;
          bs = present_values blood_sugar vals
      in [(''total_days'', of_nat n),
          (''total_treadmill'', T),
          (''avg_treadmill'', T / of_nat n),
          (''total_steps'', S),
          (''avg_steps'', S / of_nat n),
          (''total_lunch_walks'', L),
          (''avg_lunch_walks'', L / of_nat n),
          (''total_exercise_time'', T + S / 100 + L),
          (''avg_exercise_time'', (T + S / 100 + L) / of_nat n),
          (''strength_sessions'', of_nat (strength_count vals)),
          (''avg_weight'', if ws = [] then 0 else sum_list ws / of_nat (length ws)),
          (''latest_weight'', if ws = [] then 0 else last ws),
          (''avg_blood_sugar'', if bs = [] then 0 else sum_list bs / of_nat (length bs)),
          (''weight_change'', if length ws > 1 then last ws - hd ws else 0)])"

text \<open>A record whose exercise fields are 0, as the entry form stores an untouched day.\<close>

definition zero_day :: daily_record where
  "zero_day = blank_record \<lparr> treadmill_time := Some 0, steps := Some 0, lunch_walk_time := Some 0,
                              strength_training := Some False \<rparr>"

text \<open>The fields that do not depend on the order of the records.\<close>

definition order_free_keys :: "string list" where
  "order_free_keys = [''total_days'', ''total_treadmill'', ''avg_treadmill'', ''total_steps'',
     ''avg_steps'', ''total_lunch_walks'', ''avg_lunch_walks'', ''total_exercise_time'',
     ''avg_exercise_time'', ''strength_sessions'', ''avg_weight'', ''avg_blood_sugar'']"

text \<open>An optional field as the save step may store it: missing, or strictly positive.\<close>

definition stored_ok :: "rat option \<Rightarrow> bool" where
  "stored_ok v = (case v of None \<Rightarrow> True | Some x \<Rightarrow> 0 < x)"

text \<open>A submitted form with the strength box ticked and a weight of 0.\<close>

definition example_form :: entry_form where
  "example_form = \<lparr> in_treadmill_time = 30, in_steps = 4000, in_lunch_walk_time = 15,
                     in_strength_training = True, in_weight = Some 0, in_blood_sugar = Some 5,
                     in_mood_energy = ''fine'', submitted = True \<rparr>"

text \<open>
  For the monthly view: a numeric field that is missing or an int, and the records whose
  treadmill time, steps and lunch walk time are such, as the entry form stores them.
\<close>

definition is_int_field :: "pynum option \<Rightarrow> bool" where
  "is_int_field v = (case v of None \<Rightarrow> True | Some (PyInt i) \<Rightarrow> True | Some (PyFloat x) \<Rightarrow> False)"

definition int_fields :: "py_record \<Rightarrow> bool" where
  "int_fields r = (is_int_field (py_treadmill_time r) \<and> is_int_field (py_steps r)
                   \<and> is_int_field (py_lunch_walk_time r))"

definition int_of :: "pynum option \<Rightarrow> int" where
  "int_of v = (case v of None \<Rightarrow> 0 | Some (PyInt i) \<Rightarrow> i | Some (PyFloat x) \<Rightarrow> 0)"

text \<open>The totals of a summary that are ints, and what one record adds to each.\<close>

definition int_total_keys :: "string list" where
  "int_total_keys = [''total_days'', ''total_treadmill'', ''total_steps'', ''total_lunch_walks'',
                     ''strength_sessions'']"

definition int_share :: "string \<Rightarrow> py_record \<Rightarrow> int" where
  "int_share k data =
     (if k = ''total_days'' then 1
      else if k = ''total_treadmill'' then int_of (py_treadmill_time data)
      else if k = ''total_steps'' then int_of (py_steps data)
      else if k = ''total_lunch_walks'' then int_of (py_lunch_walk_time data)
      else if k = ''strength_sessions'' then (if truthy (py_strength_training data) then 1 else 0)
      else 0)"

definition int_total :: "string \<Rightarrow> py_record list \<Rightarrow> int" where
  "int_total k entries = sum_list (map (int_share k) entries)"

definition groups_total :: "string \<Rightarrow> (int \<times> py_record list) list \<Rightarrow> int" where
  "groups_total k weekly_data = sum_list (map (\<lambda>(wk, es). int_total k es) weekly_data)"

text \<open>Line 75 on the int totals of a set of records.\<close>

definition composite :: "py_record list \<Rightarrow> pynum" where
  "composite entries =
     py_add (py_add (PyInt (int_total ''total_treadmill'' entries))
                    (py_truediv (PyInt (int_total ''total_steps'' entries)) (PyInt 100)))
            (PyInt (int_total ''total_lunch_walks'' entries))"

text \<open>
  The week under which the monthly view files a record (the stored week, else the week of
  the date; the keys of a month all parse), the records of a month filed under a week, and
  what \<^verbatim>\<open>weekly_data\<close> holds for a week.
\<close>

definition stored_week :: "string \<Rightarrow> py_record \<Rightarrow> int" where
  "stored_week date_str data =
     (case py_week data of
        Some w \<Rightarrow> w
      | None \<Rightarrow> (case get_week_number (DateStr date_str) of Inr w \<Rightarrow> w | Inl e \<Rightarrow> 0))"

definition week_records :: "py_record pydict \<Rightarrow> int \<Rightarrow> py_record list" where
  "week_records month_data w =
     map snd (filter (\<lambda>(date_str, data). stored_week date_str data = w) month_data)"

definition entries_of :: "(int \<times> py_record list) list \<Rightarrow> int \<Rightarrow> py_record list" where
  "entries_of weekly_data w = (case map_of weekly_data w of None \<Rightarrow> [] | Some es \<Rightarrow> es)"

text \<open>The typed record with no key, and a day whose exercise fields are the int 0.\<close>

definition blank_py :: py_record where
  "blank_py = \<lparr> py_date = None, py_week = None, py_treadmill_time = None, py_steps = None,
                 py_lunch_walk_time = None, py_strength_training = None, py_weight = None,
                 py_blood_sugar = None, py_mood_energy = None \<rparr>"

definition zero_py :: py_record where
  "zero_py = blank_py \<lparr> py_treadmill_time := Some (PyInt 0), py_steps := Some (PyInt 0),
                         py_lunch_walk_time := Some (PyInt 0),
                         py_strength_training := Some False \<rparr>"

text \<open>
  A store with three days of June 2025, one of them without a stored week, and one day of
  July; and its records of June.
\<close>

definition example_store :: "py_record pydict" where
  "example_store =
     [(''2025-06-02'', zero_py \<lparr> py_week := Some 1, py_steps := Some (PyInt 1000) \<rparr>),
      (''2025-06-20'', zero_py \<lparr> py_steps := Some (PyInt 500), py_strength_training := Some True \<rparr>),
      (''2025-07-20'', zero_py \<lparr> py_week := Some 7, py_steps := Some (PyInt 500) \<rparr>),
      (''2025-06-03'', zero_py \<lparr> py_week := Some 1, py_steps := Some (PyInt 10) \<rparr>)]"

definition example_month :: "py_record pydict" where
  "example_month =
     [(''2025-06-02'', zero_py \<lparr> py_week := Some 1, py_steps := Some (PyInt 1000) \<rparr>),
      (''2025-06-20'', zero_py \<lparr> py_steps := Some (PyInt 500), py_strength_training := Some True \<rparr>),
      (''2025-06-03'', zero_py \<lparr> py_week := Some 1, py_steps := Some (PyInt 10) \<rparr>)]"

text \<open>Two days of June 2025 in two weeks, with 3000 and 3077 steps, and their weekly rows.\<close>

definition steps_store :: "py_record pydict" where
  "steps_store =
     [(''2025-06-02'', zero_py \<lparr> py_week := Some 1, py_steps := Some (PyInt 3000) \<rparr>),
      (''2025-06-09'', zero_py \<lparr> py_week := Some 2, py_steps := Some (PyInt 3077) \<rparr>)]"

definition steps_rows :: "(int \<times> pynum pydict) list" where
  "steps_rows =
     [(1, get_summary_stats_py
            [(''day_0'', zero_py \<lparr> py_week := Some 1, py_steps := Some (PyInt 3000) \<rparr>)]),
      (2, get_summary_stats_py
            [(''day_0'', zero_py \<lparr> py_week := Some 2, py_steps := Some (PyInt 3077) \<rparr>)])]"

text \<open>The number a decimal string denotes, to tell the keys \<^verbatim>\<open>day_0\<close>, \<^verbatim>\<open>day_1\<close>, ... apart.\<close>

definition nat_of_str :: "string \<Rightarrow> nat" where
  "nat_of_str s = foldl (\<lambda>a c. 10 * a + (of_char c - 48)) 0 s"

section \<open>The calendar arithmetic\<close>

text \<open>
  The ordinal of a valid date grows with the date: the facts below lead to
  \<open>toordinal_mono\<close>, which turns "before the start" and "at or after the end" into
  inequalities between ordinals.
\<close>

lemma div_step: "0 < k \<Longrightarrow> ((y::int) + 1) div k = y div k + (if (y + 1) mod k = 0 then 1 else 0)"
proof -
  assume k: "0 < k"
  show ?thesis
  proof (cases "(y + 1) mod k = 0")
    case True
    then obtain q where q: "y + 1 = k * q" by (auto simp: mod_eq_0_iff_dvd)
    have "y = k * (q - 1) + (k - 1)" using q by (simp add: algebra_simps)
    then have "y div k = q - 1" using k by (intro int_div_pos_eq[where r = "k - 1"]) auto
    moreover have "(y + 1) div k = q" using q k by simp
    ultimately show ?thesis using True by simp
  next
    case False
    define r where "r = y mod k"
    define q where "q = y div k"
    have y: "y = k * q + r" by (simp add: q_def r_def)
    have r: "0 \<le> r" "r < k" using k by (simp_all add: r_def)
    have "r + 1 \<noteq> k"
    proof
      assume "r + 1 = k"
      then have "y + 1 = k * (q + 1)" using y by (simp add: algebra_simps)
      then have "(y + 1) mod k = 0" by simp
      with False show False by simp
    qed
    then have "r + 1 < k" using r by simp
    moreover have "y + 1 = k * q + (r + 1)" using y by simp
    ultimately have "(y + 1) div k = q" using r by (intro int_div_pos_eq[where r = "r + 1"]) auto
    then show ?thesis using False by (simp add: q_def)
  qed
qed


lemma dby_lin:
  fixes y p q r p' q' r' A B C :: int
  assumes "p = p' + A" "q = q' + B" "r = r' + C"
  shows "y * 365 + p - q + r = ((y - 1) * 365 + p' - q' + r') + 365 + A - B + C"
  using assms by (simp add: algebra_simps)

lemma dby_Suc: "days_before_year (y + 1) = days_before_year y + (if is_leap y then 366 else 365)"
proof -
  have a: "y div 4 = (y - 1) div 4 + (if y mod 4 = 0 then 1 else 0)"
    using div_step[of 4 "y - 1"] by simp
  have b: "y div 100 = (y - 1) div 100 + (if y mod 100 = 0 then 1 else 0)"
    using div_step[of 100 "y - 1"] by simp
  have c: "y div 400 = (y - 1) div 400 + (if y mod 400 = 0 then 1 else 0)"
    using div_step[of 400 "y - 1"] by simp
  have d: "y mod 100 = 0" if "y mod 400 = 0"
  proof -
    have "400 dvd y" using that by (simp add: mod_eq_0_iff_dvd)
    moreover have "(100::int) dvd 400" by simp
    ultimately have "100 dvd y" by (rule dvd_trans[rotated])
    then show ?thesis by (simp add: mod_eq_0_iff_dvd)
  qed
  have e: "y mod 4 = 0" if "y mod 100 = 0"
  proof -
    have "100 dvd y" using that by (simp add: mod_eq_0_iff_dvd)
    moreover have "(4::int) dvd 100" by simp
    ultimately have "4 dvd y" by (rule dvd_trans[rotated])
    then show ?thesis by (simp add: mod_eq_0_iff_dvd)
  qed
  define P4 where "P4 = (y mod 4 = 0)"
  define P100 where "P100 = (y mod 100 = 0)"
  define P400 where "P400 = (y mod 400 = 0)"
  define A :: int where "A = (if P4 then 1 else 0)"
  define B :: int where "B = (if P100 then 1 else 0)"
  define C :: int where "C = (if P400 then 1 else 0)"
  have f: "days_before_year (y + 1) = y * 365 + y div 4 - y div 100 + y div 400"
    by (simp add: days_before_year_def)
  have g: "days_before_year y = (y - 1) * 365 + (y - 1) div 4 - (y - 1) div 100 + (y - 1) div 400"
    unfolding days_before_year_def Let_def by (rule refl)
  have h: "days_before_year (y + 1) = days_before_year y + 365 + A - B + C"
    unfolding f g A_def B_def C_def P4_def P100_def P400_def by (rule dby_lin[OF a b c])
  have d': "P400 \<longrightarrow> P100"
    unfolding P100_def P400_def by (rule impI) (rule d)
  have e': "P100 \<longrightarrow> P4"
    unfolding P4_def P100_def by (rule impI) (rule e)
  have l: "is_leap y = (P4 \<and> (\<not> P100 \<or> P400))"
    by (simp only: is_leap_def P4_def P100_def P400_def)
  have i: "A - B + C = (if is_leap y then 1 else 0)"
    unfolding l A_def B_def C_def using d' e' by (cases P4; cases P100; cases P400) simp_all
  show ?thesis unfolding h using i by (cases "is_leap y") simp_all
qed

lemma dby_strict_mono: "a < b \<Longrightarrow> days_before_year a + 365 \<le> days_before_year b"
proof -
  assume "a < b"
  then have "a + 1 \<le> b" by simp
  then show ?thesis
  proof (induction b rule: int_ge_induct)
    case base
    show ?case by (simp add: dby_Suc)
  next
    case (step i)
    have "days_before_year i \<le> days_before_year (i + 1)" by (simp add: dby_Suc)
    with step show ?case by simp
  qed
qed


lemma month_cases:
  fixes m :: int
  assumes "1 \<le> m" "m \<le> 12"
  shows "m = 1 \<or> m = 2 \<or> m = 3 \<or> m = 4 \<or> m = 5 \<or> m = 6 \<or> m = 7 \<or> m = 8 \<or> m = 9 \<or> m = 10 \<or> m = 11 \<or> m = 12"
  using assms by arith

lemma dbm_step:
  assumes "1 \<le> m" "m \<le> 11"
  shows "days_before_month y (m + 1) = days_before_month y m + days_in_month y m"
proof -
  have "m = 1 \<or> m = 2 \<or> m = 3 \<or> m = 4 \<or> m = 5 \<or> m = 6 \<or> m = 7 \<or> m = 8 \<or> m = 9 \<or> m = 10 \<or> m = 11"
    using assms by arith
  then show ?thesis
    by (elim disjE) (simp_all add: days_before_month_def days_in_month_def DAYS_BEFORE_MONTH_def DAYS_IN_MONTH_def)
qed

lemma dim_pos:
  assumes "1 \<le> m" "m \<le> 12"
  shows "28 \<le> days_in_month y m"
  using month_cases[OF assms]
  by (elim disjE) (simp_all add: days_in_month_def DAYS_IN_MONTH_def)

lemma dbm_mono:
  assumes "1 \<le> m1" "m1 < m2" "m2 \<le> 12"
  shows "days_before_month y m1 + days_in_month y m1 \<le> days_before_month y m2"
proof -
  have "m1 + 1 \<le> m2" using assms by simp
  then show ?thesis using assms(1,3)
  proof (induction m2 rule: int_ge_induct)
    case base
    then show ?case by (simp add: dbm_step)
  next
    case (step i)
    have "days_before_month y (i + 1) = days_before_month y i + days_in_month y i"
      using step by (intro dbm_step) auto
    moreover have "0 \<le> days_in_month y i" using dim_pos[of i y] step by simp
    ultimately show ?case using step by simp
  qed
qed

lemma dbm_12: "days_before_month y 12 + days_in_month y 12 = (if is_leap y then 366 else 365)"
  by (simp add: days_before_month_def days_in_month_def DAYS_BEFORE_MONTH_def DAYS_IN_MONTH_def)

lemma dbm_1: "days_before_month y 1 = 0"
  by (simp add: days_before_month_def DAYS_BEFORE_MONTH_def)

lemma doy_bounds:
  assumes "valid_date d"
  shows "1 \<le> days_before_month (year d) (month d) + day d"
    and "days_before_month (year d) (month d) + day d \<le> (if is_leap (year d) then 366 else 365)"
proof -
  let ?y = "year d" and ?m = "month d"
  have v: "1 \<le> ?m" "?m \<le> 12" "1 \<le> day d" "day d \<le> days_in_month ?y ?m"
    using assms by (simp_all add: valid_date_def)
  have lo: "0 \<le> days_before_month ?y ?m"
  proof (cases "?m = 1")
    case True then show ?thesis by (simp add: dbm_1)
  next
    case False
    then have "days_before_month ?y 1 + days_in_month ?y 1 \<le> days_before_month ?y ?m"
      using v by (intro dbm_mono) auto
    then show ?thesis using dim_pos[of 1 ?y] by (simp add: dbm_1)
  qed
  show "1 \<le> days_before_month ?y ?m + day d" using lo v by simp
  have hi: "days_before_month ?y ?m + days_in_month ?y ?m \<le> (if is_leap ?y then 366 else 365)"
  proof (cases "?m = 12")
    case True then show ?thesis using dbm_12[of ?y] by simp
  next
    case False
    then have "days_before_month ?y ?m + days_in_month ?y ?m \<le> days_before_month ?y 12"
      using v by (intro dbm_mono) auto
    moreover have "0 \<le> days_in_month ?y 12" using dim_pos[of 12 ?y] by simp
    ultimately show ?thesis using dbm_12[of ?y] by (simp split: if_splits)
  qed
  show "days_before_month ?y ?m + day d \<le> (if is_leap ?y then 366 else 365)"
    using hi v by (simp split: if_splits)
qed

lemma toordinal_mono:
  assumes a: "valid_date a" and b: "valid_date b" and lt: "date_less a b"
  shows "toordinal a < toordinal b"
proof -
  consider (y) "year a < year b"
    | (m) "year a = year b" "month a < month b"
    | (d) "year a = year b" "month a = month b" "day a < day b"
    using lt by (auto simp: date_less_def)
  then show ?thesis
  proof cases
    case y
    then have "year a + 1 \<le> year b" by simp
    then have "days_before_year (year a + 1) \<le> days_before_year (year b)"
      using dby_strict_mono[of "year a + 1" "year b"] by (cases "year a + 1 = year b") auto
    moreover have "days_before_year (year a + 1) = days_before_year (year a) + (if is_leap (year a) then 366 else 365)"
      by (rule dby_Suc)
    moreover note doy_bounds(2)[OF a] doy_bounds(1)[OF b]
    ultimately show ?thesis by (simp add: toordinal_def split: if_splits)
  next
    case m
    have "days_before_month (year a) (month a) + days_in_month (year a) (month a)
            \<le> days_before_month (year a) (month b)"
      using a b m by (intro dbm_mono) (auto simp: valid_date_def)
    moreover have "day a \<le> days_in_month (year a) (month a)" "1 \<le> day b"
      using a b by (simp_all add: valid_date_def)
    ultimately show ?thesis using m by (simp add: toordinal_def)
  next
    case d
    then show ?thesis by (simp add: toordinal_def)
  qed
qed


lemma start_date_eq: "fst get_program_info = Date 2025 6 2"
  by (simp add: get_program_info_def Let_def)

lemma toordinal_start: "toordinal (Date 2025 6 2) = 739404"
  by (simp add: toordinal_def days_before_year_def days_before_month_def is_leap_def
                DAYS_BEFORE_MONTH_def Let_def)

lemma end_date_eq: "snd get_program_info = Date 2025 12 29"
  by (simp add: get_program_info_def toordinal_start fromordinal_def Let_def
                DAYS_BEFORE_MONTH_def DAYS_IN_MONTH_def)

lemma toordinal_end: "toordinal (Date 2025 12 29) = 739614"
  by (simp add: toordinal_def days_before_year_def days_before_month_def is_leap_def
                DAYS_BEFORE_MONTH_def Let_def)

lemma valid_start: "valid_date (Date 2025 6 2)"
  by (simp add: valid_date_def days_in_month_def DAYS_IN_MONTH_def)

lemma valid_end: "valid_date (Date 2025 12 29)"
  by (simp add: valid_date_def days_in_month_def DAYS_IN_MONTH_def)

lemma get_week_number_date:
  "get_week_number (DateObj d) = Inr (max 1 (min 30 ((toordinal d - 739404) div 7 + 1)))"
  by (simp add: get_week_number_def get_program_info_def Let_def toordinal_start)


lemma week_ge_3: "(3 \<le> max 1 (min 30 ((x::int) div 7 + 1))) = (14 \<le> x)"
proof -
  have "(x + (- 2) * 7) div 7 = - 2 + x div 7" by (rule div_mult_self1) simp
  then have "(x - 14) div 7 = x div 7 - 2" by simp
  then have "(2 \<le> x div 7) = (14 \<le> x)"
    using pos_imp_zdiv_nonneg_iff[of 7 "x - 14"] by simp
  then show ?thesis by auto
qed

lemma strptime_error: "strptime s = Inl e \<Longrightarrow> e = ValueError"
  by (auto simp: strptime_def Let_def split: if_splits option.splits prod.splits)

section \<open>Claims about the program calendar\<close>

text \<open>
  Claim C4. For every calendar date \<open>d\<close>, \<^verbatim>\<open>get_week_number(d)\<close> is
  \<open>floor((d - start_date) in days / 7) + 1\<close> clamped to the closed range from 1 to 30;
  every date before the program start has week 1, and every date at or after the start
  plus 210 days (the end date of \<^verbatim>\<open>get_program_info\<close>) has week 30.
\<close>

theorem get_week_number_clamped:
  assumes "valid_date d"
  shows "get_week_number (DateObj d) =
           Inr (max 1 (min 30 ((toordinal d - toordinal (fst get_program_info)) div 7 + 1)))
         \<and> (date_less d (fst get_program_info) \<longrightarrow> get_week_number (DateObj d) = Inr 1)
         \<and> (date_le (snd get_program_info) d \<longrightarrow> get_week_number (DateObj d) = Inr 30)
         \<and> toordinal (snd get_program_info) = toordinal (fst get_program_info) + 210"
proof (intro conjI impI)
  show "get_week_number (DateObj d) =
           Inr (max 1 (min 30 ((toordinal d - toordinal (fst get_program_info)) div 7 + 1)))"
    by (simp only: get_week_number_date start_date_eq toordinal_start)
next
  assume "date_less d (fst get_program_info)"
  then have "toordinal d < 739404"
    using toordinal_mono[OF assms valid_start] by (simp add: start_date_eq toordinal_start)
  then have "(toordinal d - 739404) div 7 + 1 \<le> 0"
    by (simp add: div_neg_pos_less0 add1_zle_eq)
  then show "get_week_number (DateObj d) = Inr 1"
    by (simp only: get_week_number_date) simp
next
  assume "date_le (snd get_program_info) d"
  then have "739614 \<le> toordinal d"
    using toordinal_mono[OF valid_end assms] toordinal_end
    by (auto simp: end_date_eq date_le_def)
  then have "210 \<le> toordinal d - 739404" by simp
  then have "210 div 7 \<le> (toordinal d - 739404) div 7" by (rule zdiv_mono1) simp
  then have "30 \<le> (toordinal d - 739404) div 7 + 1" by simp
  then show "get_week_number (DateObj d) = Inr 30"
    by (simp only: get_week_number_date) simp
next
  show "toordinal (snd get_program_info) = toordinal (fst get_program_info) + 210"
    by (simp add: start_date_eq end_date_eq toordinal_start toordinal_end)
qed

theorem get_week_number_clamped_witness:
  "valid_date (Date 2024 2 29) \<and> date_less (Date 2024 2 29) (fst get_program_info)
     \<and> get_week_number (DateObj (Date 2024 2 29)) = Inr 1
   \<and> valid_date (Date 2025 6 16) \<and> get_week_number (DateObj (Date 2025 6 16)) = Inr 3
   \<and> valid_date (Date 2026 1 1) \<and> date_le (snd get_program_info) (Date 2026 1 1)
     \<and> get_week_number (DateObj (Date 2026 1 1)) = Inr 30"
proof -
  have a: "valid_date (Date 2024 2 29)" and b: "valid_date (Date 2025 6 16)"
    and c: "valid_date (Date 2026 1 1)"
    by (simp_all add: valid_date_def days_in_month_def DAYS_IN_MONTH_def is_leap_def)
  have la: "date_less (Date 2024 2 29) (fst get_program_info)"
    by (simp add: start_date_eq date_less_def)
  have lc: "date_le (snd get_program_info) (Date 2026 1 1)"
    by (simp add: end_date_eq date_le_def date_less_def)
  have ob: "toordinal (Date 2025 6 16) = 739418"
    by (simp add: toordinal_def days_before_year_def days_before_month_def is_leap_def
                DAYS_BEFORE_MONTH_def Let_def)
  from get_week_number_clamped[OF a] la
  have ra: "get_week_number (DateObj (Date 2024 2 29)) = Inr 1" by blast
  from get_week_number_clamped[OF c] lc
  have rc: "get_week_number (DateObj (Date 2026 1 1)) = Inr 30" by blast
  from get_week_number_clamped[OF b]
  have rb: "get_week_number (DateObj (Date 2025 6 16)) = Inr 3"
    by (simp add: ob start_date_eq toordinal_start)
  show ?thesis using a b c la lc ra rb rc by simp
qed

text \<open>
  Claim C6, as stated: \<^verbatim>\<open>get_week_number\<close> never raises, also on a malformed date
  string. It fails: \<^verbatim>\<open>strptime\<close> raises \<^verbatim>\<open>ValueError\<close> on a string that is not a date,
  and \<^verbatim>\<open>get_week_number\<close> does not catch it.
\<close>

theorem get_week_number_malformed_counterexample:
  "get_week_number (DateStr ''not-a-date'') = Inl ValueError"
  by (simp add: get_week_number_def get_program_info_def strptime_def Let_def)

text \<open>
  Claim C6, amended. \<^verbatim>\<open>get_week_number\<close> never raises for a date object, in or out of
  the program window, nor for a string that \<^verbatim>\<open>strptime\<close> accepts with the format
  \<^verbatim>\<open>%Y-%m-%d\<close>: the result is a week from 1 to 30. For a string that \<^verbatim>\<open>strptime\<close> rejects
  it raises \<^verbatim>\<open>ValueError\<close>.
\<close>

theorem get_week_number_total:
  "(\<exists>w. get_week_number (DateObj d) = Inr w \<and> 1 \<le> w \<and> w \<le> 30)
   \<and> (\<forall>d'. strptime s = Inr d' \<longrightarrow>
          get_week_number (DateStr s) = get_week_number (DateObj d'))
   \<and> (\<forall>e. strptime s = Inl e \<longrightarrow> get_week_number (DateStr s) = Inl ValueError)"
proof (intro conjI allI impI)
  show "\<exists>w. get_week_number (DateObj d) = Inr w \<and> 1 \<le> w \<and> w \<le> 30"
    by (simp only: get_week_number_date) simp
next
  fix d' assume "strptime s = Inr d'"
  then show "get_week_number (DateStr s) = get_week_number (DateObj d')"
    by (simp add: get_week_number_def)
next
  fix e assume e: "strptime s = Inl e"
  then have "e = ValueError" by (rule strptime_error)
  with e show "get_week_number (DateStr s) = Inl ValueError"
    by (simp add: get_week_number_def get_program_info_def Let_def)
qed

theorem get_week_number_total_witness:
  "strptime ''2026-01-01'' = Inr (Date 2026 1 1)
   \<and> get_week_number (DateStr ''2026-01-01'') = Inr 30
   \<and> strptime ''2025-02-30'' = Inl ValueError
   \<and> get_week_number (DateStr ''2025-02-30'') = Inl ValueError"
proof -
  have p: "strptime ''2026-01-01'' = Inr (Date 2026 1 1)"
    by (simp add: strptime_def Let_def is_digit_def digit_val_def valid_date_def
                  days_in_month_def DAYS_IN_MONTH_def)
  have q: "strptime ''2025-02-30'' = Inl ValueError"
    by (simp add: strptime_def Let_def is_digit_def digit_val_def valid_date_def
                  days_in_month_def DAYS_IN_MONTH_def is_leap_def)
  have o: "toordinal (Date 2026 1 1) = 739617"
    by (simp add: toordinal_def days_before_year_def days_before_month_def is_leap_def
                DAYS_BEFORE_MONTH_def Let_def)
  have "get_week_number (DateStr ''2026-01-01'') = get_week_number (DateObj (Date 2026 1 1))"
    using get_week_number_total[of "Date 2026 1 1" "''2026-01-01''"] p by blast
  then have r: "get_week_number (DateStr ''2026-01-01'') = Inr 30"
    by (simp add: get_week_number_date o)
  have t: "get_week_number (DateStr ''2025-02-30'') = Inl ValueError"
    using get_week_number_total[of "Date 2026 1 1" "''2025-02-30''"] q by blast
  show ?thesis using p q r t by simp
qed

text \<open>
  Claim C7. For every date \<open>d\<close>, \<^verbatim>\<open>is_strength_available(d)\<close> is true if and only if
  \<^verbatim>\<open>get_week_number(d) >= 3\<close>; on a date object both return, and the answer is true
  exactly from the fifteenth day of the program on.
\<close>

theorem is_strength_available_iff:
  "(is_strength_available x = Inr True) = (\<exists>w. get_week_number x = Inr w \<and> 3 \<le> w)
   \<and> (\<exists>w. get_week_number (DateObj d) = Inr w \<and> is_strength_available (DateObj d) = Inr (3 \<le> w))
   \<and> is_strength_available (DateObj d) =
        Inr (toordinal (fst get_program_info) + 14 \<le> toordinal d)"
proof (intro conjI)
  show "(is_strength_available x = Inr True) = (\<exists>w. get_week_number x = Inr w \<and> 3 \<le> w)"
    by (cases "get_week_number x") (simp_all add: is_strength_available_def)
next
  show "\<exists>w. get_week_number (DateObj d) = Inr w \<and> is_strength_available (DateObj d) = Inr (3 \<le> w)"
    by (simp add: is_strength_available_def get_week_number_date)
next
  have "14 \<le> toordinal d - 739404 \<longleftrightarrow> 739404 + 14 \<le> toordinal d" by auto
  then show "is_strength_available (DateObj d) =
        Inr (toordinal (fst get_program_info) + 14 \<le> toordinal d)"
    by (simp only: is_strength_available_def get_week_number_date sum.case week_ge_3
                   start_date_eq toordinal_start)
qed


theorem is_strength_available_iff_witness:
  "get_week_number (DateObj (Date 2025 6 16)) = Inr 3
   \<and> is_strength_available (DateObj (Date 2025 6 16)) = Inr True
   \<and> is_strength_available (DateObj (Date 2025 6 2)) = Inr False"
proof -
  have o: "toordinal (Date 2025 6 16) = 739418"
    by (simp add: toordinal_def days_before_year_def days_before_month_def is_leap_def
                DAYS_BEFORE_MONTH_def Let_def)
  have w: "get_week_number (DateObj (Date 2025 6 16)) = Inr 3"
    by (simp add: get_week_number_date o)
  have "is_strength_available (DateObj (Date 2025 6 16)) = Inr True"
    using is_strength_available_iff[of "DateObj (Date 2025 6 16)" "Date 2025 6 16"] w by simp
  moreover have "is_strength_available (DateObj (Date 2025 6 2)) = Inr False"
    using is_strength_available_iff[of "DateObj (Date 2025 6 2)" "Date 2025 6 2"]
    by (simp add: start_date_eq)
  ultimately show ?thesis using w by simp
qed

section \<open>Facts about the aggregator\<close>

lemma collect_eq:
  "collect vals (ws, bs) = (ws @ present_values weight vals, bs @ present_values blood_sugar vals)"
  by (induction vals arbitrary: ws bs)
     (auto simp: present_values_def present_def split: option.splits)

lemma collect_Nil:
  "collect vals ([], []) = (present_values weight vals, present_values blood_sugar vals)"
  by (simp add: collect_eq)

lemma or_0_total: "sum_list (map (\<lambda>data. or_0 (f data)) vals) = field_total f vals"
proof -
  have "(\<lambda>data. or_0 (f data)) = (\<lambda>data. case f data of None \<Rightarrow> 0 | Some x \<Rightarrow> x)"
    by (rule ext) (simp add: or_0_def split: option.splits)
  then show ?thesis by (simp add: field_total_def)
qed

lemma truthy_eq: "truthy v = (v = Some True)"
  by (cases v) (simp_all add: truthy_def)

lemma truthy_count:
  "length (filter (\<lambda>data. truthy (strength_training data)) vals) = strength_count vals"
  by (simp add: strength_count_def truthy_eq)

lemma get_summary_stats_nonempty:
  "d \<noteq> [] \<Longrightarrow> get_summary_stats d = summary_of (map snd d)"
  by (simp add: get_summary_stats_def summary_of_def Let_def collect_Nil or_0_total truthy_count)

lemma getitem_summary:
  "getitem (summary_of vals) ''total_days'' = Inr (of_nat (length vals))"
  "getitem (summary_of vals) ''total_treadmill'' = Inr (field_total treadmill_time vals)"
  "getitem (summary_of vals) ''avg_treadmill'' =
     Inr (field_total treadmill_time vals / of_nat (length vals))"
  "getitem (summary_of vals) ''total_steps'' = Inr (field_total steps vals)"
  "getitem (summary_of vals) ''avg_steps'' = Inr (field_total steps vals / of_nat (length vals))"
  "getitem (summary_of vals) ''total_lunch_walks'' = Inr (field_total lunch_walk_time vals)"
  "getitem (summary_of vals) ''avg_lunch_walks'' =
     Inr (field_total lunch_walk_time vals / of_nat (length vals))"
  "getitem (summary_of vals) ''total_exercise_time'' =
     Inr (field_total treadmill_time vals + field_total steps vals / 100
          + field_total lunch_walk_time vals)"
  "getitem (summary_of vals) ''avg_exercise_time'' =
     Inr ((field_total treadmill_time vals + field_total steps vals / 100
          + field_total lunch_walk_time vals) / of_nat (length vals))"
  "getitem (summary_of vals) ''strength_sessions'' = Inr (of_nat (strength_count vals))"
  "getitem (summary_of vals) ''avg_weight'' =
     Inr (if present_values weight vals = [] then 0
          else sum_list (present_values weight vals) / of_nat (length (present_values weight vals)))"
  "getitem (summary_of vals) ''latest_weight'' =
     Inr (if present_values weight vals = [] then 0 else last (present_values weight vals))"
  "getitem (summary_of vals) ''avg_blood_sugar'' =
     Inr (if present_values blood_sugar vals = [] then 0
          else sum_list (present_values blood_sugar vals)
               / of_nat (length (present_values blood_sugar vals)))"
  "getitem (summary_of vals) ''weight_change'' =
     Inr (if length (present_values weight vals) > 1
          then last (present_values weight vals) - hd (present_values weight vals) else 0)"
  by (simp_all add: getitem_def summary_of_def Let_def)

section \<open>Claims about the aggregator\<close>






lemma field_total_mset:
  assumes "mset v1 = mset v2"
  shows "field_total f v1 = field_total f v2"
proof -
  have "field_total f v = sum_mset (image_mset (\<lambda>data. case f data of None \<Rightarrow> 0 | Some x \<Rightarrow> x) (mset v))"
    for v
    unfolding field_total_def by (simp only: sum_mset_sum_list[symmetric] mset_map)
  then show ?thesis using assms by simp
qed

lemma strength_count_mset:
  assumes "mset v1 = mset v2"
  shows "strength_count v1 = strength_count v2"
proof -
  have "strength_count v = size (filter_mset (\<lambda>data. strength_training data = Some True) (mset v))"
    for v
    unfolding strength_count_def by (simp only: size_mset[symmetric] mset_filter)
  then show ?thesis using assms by simp
qed

lemma present_values_mset:
  assumes "mset v1 = mset v2"
  shows "mset (present_values f v1) = mset (present_values f v2)"
  unfolding present_values_def using assms by (simp only: mset_map mset_filter)

lemma mset_sum_length:
  assumes "mset (xs :: rat list) = mset ys"
  shows "sum_list xs = sum_list ys" "length xs = length ys" "(xs = []) = (ys = [])"
proof -
  show "sum_list xs = sum_list ys" using assms by (metis sum_mset_sum_list)
  show "length xs = length ys" using assms by (rule mset_eq_length)
  then show "(xs = []) = (ys = [])" by auto
qed

text \<open>
  Claim C2. Two inputs with the same pairs give equal summaries, and the latest weight and
  the weight change follow the ascending order of the dates. The code does not do this:
  it collects the weights in the iteration order of the dictionary and never sorts by
  date, so the same two records inserted in the other order give another latest weight
  and the opposite change. The evaluation at these two inputs:
\<close>

theorem summary_order_counterexample:
  "mset [(''2025-06-02'', zero_day \<lparr> weight := Some 70 \<rparr>), (''2025-06-03'', zero_day \<lparr> weight := Some 68 \<rparr>)]
     = mset [(''2025-06-03'', zero_day \<lparr> weight := Some 68 \<rparr>), (''2025-06-02'', zero_day \<lparr> weight := Some 70 \<rparr>)]
   \<and> getitem (get_summary_stats
         [(''2025-06-02'', zero_day \<lparr> weight := Some 70 \<rparr>), (''2025-06-03'', zero_day \<lparr> weight := Some 68 \<rparr>)])
         ''latest_weight'' = Inr 68
   \<and> getitem (get_summary_stats
         [(''2025-06-03'', zero_day \<lparr> weight := Some 68 \<rparr>), (''2025-06-02'', zero_day \<lparr> weight := Some 70 \<rparr>)])
         ''latest_weight'' = Inr 70
   \<and> getitem (get_summary_stats
         [(''2025-06-02'', zero_day \<lparr> weight := Some 70 \<rparr>), (''2025-06-03'', zero_day \<lparr> weight := Some 68 \<rparr>)])
         ''weight_change'' = Inr (- 2)
   \<and> getitem (get_summary_stats
         [(''2025-06-03'', zero_day \<lparr> weight := Some 68 \<rparr>), (''2025-06-02'', zero_day \<lparr> weight := Some 70 \<rparr>)])
         ''weight_change'' = Inr 2"
  by (simp add: get_summary_stats_nonempty getitem_summary present_values_def present_def
                zero_day_def blank_record_def)

text \<open>
  What the aggregator does guarantee for two inputs with the same pairs: the number of
  days, every total, every average and the number of strength sessions are equal, and the
  whole summaries are equal when the present weights also come in the same order. The
  latest weight is the last, and the weight change the last minus the first, of the
  present weights in the iteration order of the input.
\<close>

lemma summary_order_independence:
  assumes "mset d1 = mset d2"
  shows "(\<forall>k \<in> set order_free_keys.
            getitem (get_summary_stats d1) k = getitem (get_summary_stats d2) k)
       \<and> (present_values weight (map snd d1) = present_values weight (map snd d2) \<longrightarrow>
            get_summary_stats d1 = get_summary_stats d2)
       \<and> (d1 \<noteq> [] \<longrightarrow>
            getitem (get_summary_stats d1) ''latest_weight'' =
              Inr (if present_values weight (map snd d1) = [] then 0
                   else last (present_values weight (map snd d1)))
          \<and> getitem (get_summary_stats d1) ''weight_change'' =
              Inr (if length (present_values weight (map snd d1)) > 1
                   then last (present_values weight (map snd d1))
                        - hd (present_values weight (map snd d1))
                   else 0))"
proof (cases "d1 = []")
  case True
  then have "d2 = []" using assms by simp
  with True show ?thesis by simp
next
  case False
  then have d2: "d2 \<noteq> []" using assms by auto
  let ?v1 = "map snd d1" and ?v2 = "map snd d2"
  have m: "mset ?v1 = mset ?v2" using assms by (metis mset_map)
  have len: "length ?v1 = length ?v2" using m by (rule mset_eq_length)
  note ft = field_total_mset[OF m]
  note sc = strength_count_mset[OF m]
  note w = mset_sum_length[OF present_values_mset[OF m, of weight]]
  note b = mset_sum_length[OF present_values_mset[OF m, of blood_sugar]]
  have a: "\<forall>k \<in> set order_free_keys.
            getitem (get_summary_stats d1) k = getitem (get_summary_stats d2) k"
    unfolding get_summary_stats_nonempty[OF False] get_summary_stats_nonempty[OF d2]
    using len by (simp add: order_free_keys_def getitem_summary ft sc w b)
  have c: "get_summary_stats d1 = get_summary_stats d2"
    if "present_values weight ?v1 = present_values weight ?v2"
    unfolding get_summary_stats_nonempty[OF False] get_summary_stats_nonempty[OF d2]
    using len that by (simp add: summary_of_def Let_def ft sc b)
  show ?thesis using a c False
    by (simp add: get_summary_stats_nonempty getitem_summary)
qed

lemma summary_order_independence_example:
  "mset [(''2025-06-02'', zero_day \<lparr> weight := Some 70 \<rparr>), (''2025-06-03'', zero_day \<lparr> steps := Some 500 \<rparr>)]
     = mset [(''2025-06-03'', zero_day \<lparr> steps := Some 500 \<rparr>), (''2025-06-02'', zero_day \<lparr> weight := Some 70 \<rparr>)]
   \<and> get_summary_stats
         [(''2025-06-02'', zero_day \<lparr> weight := Some 70 \<rparr>), (''2025-06-03'', zero_day \<lparr> steps := Some 500 \<rparr>)]
       = get_summary_stats
         [(''2025-06-03'', zero_day \<lparr> steps := Some 500 \<rparr>), (''2025-06-02'', zero_day \<lparr> weight := Some 70 \<rparr>)]"
proof -
  let ?d1 = "[(''2025-06-02'', zero_day \<lparr> weight := Some 70 \<rparr>), (''2025-06-03'', zero_day \<lparr> steps := Some 500 \<rparr>)]"
  let ?d2 = "[(''2025-06-03'', zero_day \<lparr> steps := Some 500 \<rparr>), (''2025-06-02'', zero_day \<lparr> weight := Some 70 \<rparr>)]"
  have m: "mset ?d1 = mset ?d2" by simp
  have p: "present_values weight (map snd ?d1) = present_values weight (map snd ?d2)"
    by (simp add: present_values_def present_def zero_day_def blank_record_def)
  from summary_order_independence[OF m] p have "get_summary_stats ?d1 = get_summary_stats ?d2"
    by blast
  with m show ?thesis by simp
qed



section \<open>Facts about dictionaries and the save step\<close>

lemma map_of_setitem_same: "map_of (setitem d k v) k = Some v"
  by (induction d) auto

lemma map_of_setitem_other: "k' \<noteq> k \<Longrightarrow> map_of (setitem d k v) k' = map_of d k'"
  by (induction d) auto

lemma set_setitem: "set (setitem d k v) \<subseteq> insert (k, v) (set d)"
  by (induction d) (auto split: if_splits)

lemma distinct_setitem: "distinct (map fst d) \<Longrightarrow> distinct (map fst (setitem d k v))"
proof (induction d)
  case Nil then show ?case by simp
next
  case (Cons p d)
  have "fst ` set (setitem d k v) \<subseteq> insert k (fst ` set d)"
    using set_setitem[of d k v] by force
  with Cons show ?case by (cases p) auto
qed

lemma getitem_setitem: "getitem (setitem d k v) k = Inr v"
  by (simp add: getitem_def map_of_setitem_same)

lemma stored_ok_positive_or_None: "stored_ok (positive_or_None v)"
  by (cases v) (simp_all add: stored_ok_def positive_or_None_def)

lemma positive_or_None_eq:
  "positive_or_None v = (case v of None \<Rightarrow> None | Some x \<Rightarrow> if 0 < x then Some x else None)"
  by (cases v) (auto simp: positive_or_None_def)

lemma show_daily_entry_submitted:
  assumes "submitted form"
  shows "show_daily_entry td sel form =
     Inr (setitem td (strftime sel)
           \<lparr> date = Some (strftime sel),
             week = Some (max 1 (min 30 ((toordinal sel - 739404) div 7 + 1))),
             treadmill_time = Some (in_treadmill_time form),
             steps = Some (in_steps form),
             lunch_walk_time = Some (in_lunch_walk_time form),
             strength_training = Some (if 3 \<le> max 1 (min 30 ((toordinal sel - 739404) div 7 + 1))
                                        then in_strength_training form else False),
             weight = positive_or_None (in_weight form),
             blood_sugar = positive_or_None (in_blood_sugar form),
             mood_energy = Some (in_mood_energy form) \<rparr>)"
  using assms
  by (simp add: show_daily_entry_def is_strength_available_def get_week_number_date Let_def)

lemma strftime_example: "strftime (Date 2025 6 3) = ''2025-06-03''"
  by code_simp

lemma week_example: "get_week_number (DateObj (Date 2025 6 3)) = Inr 1"
  by (simp add: get_week_number_date toordinal_def days_before_year_def days_before_month_def
                is_leap_def DAYS_BEFORE_MONTH_def Let_def)

section \<open>Claims about the save step\<close>

text \<open>
  Claim C9. A record written by the save step of the daily entry stores weight and blood
  sugar either as missing or as a strictly positive number: an entered value that is 0
  or not positive is stored as missing, and a store without a zero in these fields stays
  so.
\<close>

theorem saved_optional_fields:
  assumes "submitted form"
  shows "\<exists>td' r. show_daily_entry td sel form = Inr td'
           \<and> getitem td' (strftime sel) = Inr r
           \<and> stored_ok (weight r) \<and> stored_ok (blood_sugar r)
           \<and> weight r = (case in_weight form of None \<Rightarrow> None
                          | Some x \<Rightarrow> if 0 < x then Some x else None)
           \<and> blood_sugar r = (case in_blood_sugar form of None \<Rightarrow> None
                          | Some x \<Rightarrow> if 0 < x then Some x else None)
           \<and> ((\<forall>(k, r') \<in> set td. stored_ok (weight r') \<and> stored_ok (blood_sugar r'))
                \<longrightarrow> (\<forall>(k, r') \<in> set td'. stored_ok (weight r') \<and> stored_ok (blood_sugar r')))"
proof -
  define r where "r = \<lparr> date = Some (strftime sel),
             week = Some (max 1 (min 30 ((toordinal sel - 739404) div 7 + 1))),
             treadmill_time = Some (in_treadmill_time form),
             steps = Some (in_steps form),
             lunch_walk_time = Some (in_lunch_walk_time form),
             strength_training = Some (if 3 \<le> max 1 (min 30 ((toordinal sel - 739404) div 7 + 1))
                                        then in_strength_training form else False),
             weight = positive_or_None (in_weight form),
             blood_sugar = positive_or_None (in_blood_sugar form),
             mood_energy = Some (in_mood_energy form) \<rparr>"
  define td' where "td' = setitem td (strftime sel) r"
  have 1: "show_daily_entry td sel form = Inr td'"
    unfolding td'_def r_def by (rule show_daily_entry_submitted[OF assms])
  have 2: "getitem td' (strftime sel) = Inr r"
    unfolding td'_def by (rule getitem_setitem)
  have 3: "stored_ok (weight r)" "stored_ok (blood_sugar r)"
    by (simp_all add: r_def stored_ok_positive_or_None)
  have 4: "weight r = (case in_weight form of None \<Rightarrow> None
                          | Some x \<Rightarrow> if 0 < x then Some x else None)"
    "blood_sugar r = (case in_blood_sugar form of None \<Rightarrow> None
                          | Some x \<Rightarrow> if 0 < x then Some x else None)"
    by (simp_all add: r_def positive_or_None_eq)
  have 5: "\<forall>(k, r') \<in> set td'. stored_ok (weight r') \<and> stored_ok (blood_sugar r')"
    if "\<forall>(k, r') \<in> set td. stored_ok (weight r') \<and> stored_ok (blood_sugar r')"
  proof -
    have "set td' \<subseteq> insert (strftime sel, r) (set td)"
      unfolding td'_def by (rule set_setitem)
    then show ?thesis using that 3 by auto
  qed
  show ?thesis using 1 2 3 4 5 by blast
qed

theorem saved_optional_fields_witness:
  "submitted example_form
   \<and> (\<exists>td' r. show_daily_entry [] (Date 2025 6 3) example_form = Inr td'
           \<and> getitem td' ''2025-06-03'' = Inr r
           \<and> weight r = None \<and> blood_sugar r = Some 5)"
proof -
  have s: "submitted example_form" by (simp add: example_form_def)
  from saved_optional_fields[OF s, of "[]" "Date 2025 6 3"]
  show ?thesis
    by (simp add: strftime_example) (auto simp: example_form_def)
qed

text \<open>
  Claim C10. A record written by the save step for a date whose week number is below 3 has
  \<^verbatim>\<open>strength_training\<close> false, whatever the form holds, and so adds nothing to
  \<^verbatim>\<open>strength_sessions\<close>.
\<close>

theorem saved_strength_flag:
  assumes "submitted form" and "get_week_number (DateObj sel) = Inr w" and "w < 3"
  shows "\<exists>td' r. show_daily_entry td sel form = Inr td'
           \<and> getitem td' (strftime sel) = Inr r
           \<and> week r = Some w
           \<and> strength_training r = Some False
           \<and> getitem (get_summary_stats [(strftime sel, r)]) ''strength_sessions'' = Inr 0"
proof -
  have w: "w = max 1 (min 30 ((toordinal sel - 739404) div 7 + 1))"
    using assms(2) by (simp add: get_week_number_date)
  let ?r = "\<lparr> date = Some (strftime sel),
             week = Some w,
             treadmill_time = Some (in_treadmill_time form),
             steps = Some (in_steps form),
             lunch_walk_time = Some (in_lunch_walk_time form),
             strength_training = Some False,
             weight = positive_or_None (in_weight form),
             blood_sugar = positive_or_None (in_blood_sugar form),
             mood_energy = Some (in_mood_energy form) \<rparr>"
  let ?td' = "setitem td (strftime sel) ?r"
  have "\<not> 3 \<le> w" using assms(3) by simp
  then have 1: "show_daily_entry td sel form = Inr ?td'"
    unfolding show_daily_entry_submitted[OF assms(1)] w[symmetric] by simp
  have 2: "getitem ?td' (strftime sel) = Inr ?r" by (rule getitem_setitem)
  have 3: "getitem (get_summary_stats [(strftime sel, ?r)]) ''strength_sessions'' = Inr 0"
    by (simp add: get_summary_stats_nonempty getitem_summary strength_count_def)
  show ?thesis using 1 2 3 by (intro exI[of _ ?td'] exI[of _ ?r]) simp
qed

theorem saved_strength_flag_witness:
  "submitted example_form \<and> in_strength_training example_form
   \<and> get_week_number (DateObj (Date 2025 6 3)) = Inr 1 \<and> (1::int) < 3
   \<and> (\<exists>td' r. show_daily_entry [] (Date 2025 6 3) example_form = Inr td'
           \<and> getitem td' ''2025-06-03'' = Inr r
           \<and> week r = Some 1 \<and> strength_training r = Some False)"
proof -
  have s: "submitted example_form" "in_strength_training example_form"
    by (simp_all add: example_form_def)
  have l: "(1::int) < 3" by simp
  from saved_strength_flag[OF s(1) week_example l, of "[]"]
  show ?thesis using s week_example
    by (simp add: strftime_example) blast
qed

section \<open>Facts about the typed aggregator\<close>

lemma foldl_py_add_ints: "foldl py_add (PyInt a) (map PyInt xs) = PyInt (a + sum_list xs)"
  by (induction xs arbitrary: a) (simp_all add: algebra_simps)

lemma py_or_0_int: "is_int_field v \<Longrightarrow> py_or_0 v = PyInt (int_of v)"
  by (auto simp: is_int_field_def py_or_0_def int_of_def num_value_def
           split: option.splits pynum.splits)

lemma py_sum_int_field:
  assumes "\<forall>r \<in> set vals. is_int_field (f r)"
  shows "py_sum (map (\<lambda>data. py_or_0 (f data)) vals)
           = PyInt (sum_list (map (\<lambda>data. int_of (f data)) vals))"
proof -
  have "map (\<lambda>data. py_or_0 (f data)) vals = map PyInt (map (\<lambda>data. int_of (f data)) vals)"
    using assms by (simp add: py_or_0_int)
  then show ?thesis by (simp only: py_sum_def foldl_py_add_ints) simp
qed

lemma getitem_py:
  assumes "d \<noteq> []"
  shows "getitem (get_summary_stats_py d) ''total_days'' = Inr (PyInt (int (length d)))"
    and "getitem (get_summary_stats_py d) ''total_treadmill'' =
           Inr (py_sum (map (\<lambda>data. py_or_0 (py_treadmill_time data)) (map snd d)))"
    and "getitem (get_summary_stats_py d) ''total_steps'' =
           Inr (py_sum (map (\<lambda>data. py_or_0 (py_steps data)) (map snd d)))"
    and "getitem (get_summary_stats_py d) ''total_lunch_walks'' =
           Inr (py_sum (map (\<lambda>data. py_or_0 (py_lunch_walk_time data)) (map snd d)))"
    and "getitem (get_summary_stats_py d) ''total_exercise_time'' =
           Inr (py_add (py_add (py_sum (map (\<lambda>data. py_or_0 (py_treadmill_time data)) (map snd d)))
                               (py_truediv (py_sum (map (\<lambda>data. py_or_0 (py_steps data)) (map snd d)))
                                           (PyInt 100)))
                       (py_sum (map (\<lambda>data. py_or_0 (py_lunch_walk_time data)) (map snd d))))"
    and "getitem (get_summary_stats_py d) ''strength_sessions'' =
           Inr (PyInt (int (length (filter (\<lambda>data. truthy (py_strength_training data))
                                           (map snd d)))))"
  using assms
  by (simp_all add: getitem_def get_summary_stats_py_def Let_def case_prod_beta)

lemma int_share_eqs:
  "int_share ''total_days'' = (\<lambda>data. 1)"
  "int_share ''total_treadmill'' = (\<lambda>data. int_of (py_treadmill_time data))"
  "int_share ''total_steps'' = (\<lambda>data. int_of (py_steps data))"
  "int_share ''total_lunch_walks'' = (\<lambda>data. int_of (py_lunch_walk_time data))"
  "int_share ''strength_sessions'' = (\<lambda>data. if truthy (py_strength_training data) then 1 else 0)"
  by (rule ext, simp add: int_share_def)+

lemma sum_list_ones: "sum_list (map (\<lambda>_. 1::int) xs) = int (length xs)"
  by (induction xs) auto

lemma sum_list_indicator:
  "sum_list (map (\<lambda>x. if P x then 1 else 0::int) xs) = int (length (filter P xs))"
  by (induction xs) auto

lemma int_total_key_cases:
  assumes "k \<in> set int_total_keys"
  obtains "k = ''total_days''" | "k = ''total_treadmill''" | "k = ''total_steps''"
    | "k = ''total_lunch_walks''" | "k = ''strength_sessions''"
proof -
  have "k = ''total_days'' \<or> k = ''total_treadmill'' \<or> k = ''total_steps''
      \<or> k = ''total_lunch_walks'' \<or> k = ''strength_sessions''"
    using assms by (simp only: int_total_keys_def list.set insert_iff empty_iff simp_thms)
  then show ?thesis by (elim disjE) (rule that, assumption)+
qed

lemma getitem_int_total:
  assumes "k \<in> set int_total_keys" and "d \<noteq> []" and "\<forall>r \<in> set (map snd d). int_fields r"
  shows "getitem (get_summary_stats_py d) k = Inr (PyInt (int_total k (map snd d)))"
proof -
  have t: "\<forall>r \<in> set (map snd d). is_int_field (py_treadmill_time r)"
    and s: "\<forall>r \<in> set (map snd d). is_int_field (py_steps r)"
    and l: "\<forall>r \<in> set (map snd d). is_int_field (py_lunch_walk_time r)"
    using assms(3) by (simp_all add: int_fields_def)
  from assms(1) show ?thesis
  proof (cases rule: int_total_key_cases)
    case 1 then show ?thesis
      by (simp add: getitem_py[OF assms(2)] int_total_def int_share_eqs sum_list_ones comp_def)
  next
    case 2 then show ?thesis
      by (simp only: getitem_py[OF assms(2)] int_total_def int_share_eqs py_sum_int_field[OF t])
  next
    case 3 then show ?thesis
      by (simp only: getitem_py[OF assms(2)] int_total_def int_share_eqs py_sum_int_field[OF s])
  next
    case 4 then show ?thesis
      by (simp only: getitem_py[OF assms(2)] int_total_def int_share_eqs py_sum_int_field[OF l])
  next
    case 5 then show ?thesis
      by (simp add: getitem_py[OF assms(2)] int_total_def int_share_eqs sum_list_indicator comp_def)
  qed
qed

lemma getitem_composite:
  assumes "d \<noteq> []" and "\<forall>r \<in> set (map snd d). int_fields r"
  shows "getitem (get_summary_stats_py d) ''total_exercise_time'' = Inr (composite (map snd d))"
proof -
  have t: "\<forall>r \<in> set (map snd d). is_int_field (py_treadmill_time r)"
    and s: "\<forall>r \<in> set (map snd d). is_int_field (py_steps r)"
    and l: "\<forall>r \<in> set (map snd d). is_int_field (py_lunch_walk_time r)"
    using assms(2) by (simp_all add: int_fields_def)
  show ?thesis
    by (simp only: getitem_py(5)[OF assms(1)] py_sum_int_field[OF t] py_sum_int_field[OF s]
                   py_sum_int_field[OF l] composite_def int_total_def int_share_eqs)
qed

section \<open>Facts about the weekly partition\<close>

lemma map_snd_enumerate_days: "map snd (enumerate_days es) = es"
proof -
  have "map snd (enumerate_days es) = map snd (enumerate 0 es)"
    by (simp add: enumerate_days_def case_prod_beta comp_def)
  then show ?thesis by simp
qed

lemma enumerate_days_Nil: "(enumerate_days es = []) = (es = [])"
  by (cases es) (simp_all add: enumerate_days_def)

text \<open>
  The keys \<^verbatim>\<open>day_0\<close>, \<^verbatim>\<open>day_1\<close>, ... of the dictionary built for a week are distinct, so it
  has one entry for each record of the week.
\<close>

lemma of_char_digit_char: "n < 10 \<Longrightarrow> of_char (digit_char n) = 48 + n"
  by (simp add: digit_char_def)

lemma nat_of_str_snoc: "nat_of_str (s @ [c]) = 10 * nat_of_str s + (of_char c - 48)"
  by (simp add: nat_of_str_def)

lemma nat_of_str_of_nat: "nat_of_str (str_of_nat n) = n"
proof (induction n rule: str_of_nat.induct)
  case (1 n)
  show ?case
  proof (cases "n < 10")
    case True
    then have "str_of_nat n = [digit_char n]" by (subst str_of_nat.simps) simp
    then show ?thesis using True by (simp add: nat_of_str_def of_char_digit_char)
  next
    case False
    then have e: "str_of_nat n = str_of_nat (n div 10) @ [digit_char (n mod 10)]"
      by (subst str_of_nat.simps) simp
    have "nat_of_str (str_of_nat (n div 10)) = n div 10" using 1 False by simp
    then show ?thesis
      by (simp only: e nat_of_str_snoc) (simp add: of_char_digit_char)
  qed
qed

lemma str_of_nat_inj: "str_of_nat a = str_of_nat b \<Longrightarrow> a = b"
  by (metis nat_of_str_of_nat)

lemma enumerate_days_keys:
  "map fst (enumerate_days es) = map (\<lambda>i. ''day_'' @ str_of_nat i) [0..<length es]"
proof -
  have "map fst (enumerate_days es) = map ((\<lambda>i. ''day_'' @ str_of_nat i) \<circ> fst) (enumerate 0 es)"
    by (simp add: enumerate_days_def case_prod_beta comp_def)
  also have "\<dots> = map (\<lambda>i. ''day_'' @ str_of_nat i) (map fst (enumerate 0 es))"
    by (simp only: map_map)
  finally show ?thesis by simp
qed

lemma distinct_enumerate_days: "distinct (map fst (enumerate_days es))"
proof -
  have "inj_on (\<lambda>i. ''day_'' @ str_of_nat i) (set [0..<length es])"
    by (rule inj_onI) (simp add: str_of_nat_inj)
  then show ?thesis by (simp only: enumerate_days_keys distinct_map distinct_upt simp_thms)
qed

lemma week_stats_int_total:
  assumes "k \<in> set int_total_keys" and "es \<noteq> []" and "\<forall>r \<in> set es. int_fields r"
  shows "getitem (get_summary_stats_py (enumerate_days es)) k = Inr (PyInt (int_total k es))"
  using getitem_int_total[OF assms(1), of "enumerate_days es"] assms(2,3)
  by (simp add: enumerate_days_Nil map_snd_enumerate_days)

lemma week_stats_composite:
  assumes "es \<noteq> []" and "\<forall>r \<in> set es. int_fields r"
  shows "getitem (get_summary_stats_py (enumerate_days es)) ''total_exercise_time''
           = Inr (composite es)"
  using getitem_composite[of "enumerate_days es"] assms
  by (simp add: enumerate_days_Nil map_snd_enumerate_days)

text \<open>One step of the loop over the month: \<^verbatim>\<open>weekly_data[week].append(data)\<close>.\<close>

lemma groups_total_append_week:
  "groups_total k (append_week wd wk data) = groups_total k wd + int_share k data"
  by (induction wd) (auto simp: groups_total_def int_total_def)

lemma map_fst_append_week:
  "map fst (append_week wd wk data)
     = (if wk \<in> set (map fst wd) then map fst wd else map fst wd @ [wk])"
  by (induction wd) (auto split: if_splits)

lemma keys_append_week: "set (map fst (append_week wd wk data)) = insert wk (set (map fst wd))"
  by (simp only: map_fst_append_week) auto

lemma distinct_append_week:
  "distinct (map fst wd) \<Longrightarrow> distinct (map fst (append_week wd wk data))"
  by (simp only: map_fst_append_week) auto

lemma entries_append_week:
  "entries_of (append_week wd wk data) w
     = (if w = wk then entries_of wd wk @ [data] else entries_of wd w)"
  by (induction wd) (auto simp: entries_of_def)

lemma nonempty_append_week:
  "\<forall>(w, es) \<in> set wd. es \<noteq> [] \<Longrightarrow> \<forall>(w, es) \<in> set (append_week wd wk data). es \<noteq> []"
  by (induction wd) (auto split: if_splits)

lemma week_records_Cons:
  "week_records ((date_str, data) # md) w
     = (if stored_week date_str data = w then data # week_records md w else week_records md w)"
  by (simp add: week_records_def)

text \<open>The loop over the month, from any \<^verbatim>\<open>weekly_data\<close>.\<close>

lemma group_weeks_invariant:
  assumes "group_weeks md wd = Inr wd'"
    and "\<forall>(w, es) \<in> set wd. es \<noteq> []"
    and "distinct (map fst wd)"
  shows "groups_total k wd' = groups_total k wd + int_total k (map snd md)"
    and "\<forall>(w, es) \<in> set wd'. es \<noteq> []"
    and "distinct (map fst wd')"
    and "set (map fst wd') = set (map fst wd) \<union> (\<lambda>(date_str, data). stored_week date_str data) ` set md"
    and "entries_of wd' w = entries_of wd w @ week_records md w"
  using assms
proof (induction md arbitrary: wd)
  case Nil
  {
    case 1 then show ?case by (simp add: int_total_def)
  next
    case 2 then show ?case by simp
  next
    case 3 then show ?case by simp
  next
    case 4 then show ?case by simp
  next
    case 5 then show ?case by (simp add: week_records_def)
  }
next
  case (Cons p md)
  obtain date_str data where p: "p = (date_str, data)" by (cases p)
  {
    fix wd
    assume g0: "group_weeks (p # md) wd = Inr wd'"
      and ne0: "\<forall>(w, es) \<in> set wd. es \<noteq> []"
      and di0: "distinct (map fst wd)"
    from g0 obtain dw where dw: "get_week_number (DateStr date_str) = Inr dw"
      by (auto simp: p split: sum.splits)
    define wk where "wk = (case py_week data of Some w \<Rightarrow> w | None \<Rightarrow> dw)"
    have wk: "wk = stored_week date_str data"
      by (simp add: wk_def stored_week_def dw split: option.splits)
    have g: "group_weeks md (append_week wd wk data) = Inr wd'"
      using g0 by (simp add: p dw wk_def)
    have ne: "\<forall>(w, es) \<in> set (append_week wd wk data). es \<noteq> []"
      by (rule nonempty_append_week[OF ne0])
    have di: "distinct (map fst (append_week wd wk data))"
      by (rule distinct_append_week[OF di0])
    note ih = Cons.IH[OF g ne di]
    have "groups_total k wd' = groups_total k wd + int_total k (map snd (p # md))"
      using ih(1) by (simp add: p groups_total_append_week int_total_def)
    moreover have "\<forall>(w, es) \<in> set wd'. es \<noteq> []" by (rule ih(2))
    moreover have "distinct (map fst wd')" by (rule ih(3))
    moreover have "set (map fst wd') = set (map fst wd)
        \<union> (\<lambda>(date_str, data). stored_week date_str data) ` set (p # md)"
      using ih(4) by (simp only: keys_append_week wk) (auto simp: p)
    moreover have "entries_of wd' w = entries_of wd w @ week_records (p # md) w"
      using ih(5) by (simp add: p entries_append_week week_records_Cons wk)
    ultimately have "groups_total k wd' = groups_total k wd + int_total k (map snd (p # md))
      \<and> (\<forall>(w, es) \<in> set wd'. es \<noteq> []) \<and> distinct (map fst wd')
      \<and> set (map fst wd') = set (map fst wd)
            \<union> (\<lambda>(date_str, data). stored_week date_str data) ` set (p # md)
      \<and> entries_of wd' w = entries_of wd w @ week_records (p # md) w"
      by blast
  }
  note step = this
  {
    case 1 from step[OF 1] show ?case by blast
  next
    case 2 from step[OF 2] show ?case by blast
  next
    case 3 from step[OF 3] show ?case by blast
  next
    case 4 from step[OF 4] show ?case by blast
  next
    case 5 from step[OF 5] show ?case by blast
  }
qed

lemma group_weeks_returns:
  assumes "\<forall>k \<in> set (map fst md). \<exists>d. strptime k = Inr d"
  shows "\<exists>wd'. group_weeks md wd = Inr wd'"
  using assms
proof (induction md arbitrary: wd)
  case Nil
  then show ?case by simp
next
  case (Cons p md)
  obtain date_str data where p: "p = (date_str, data)" by (cases p)
  from Cons.prems obtain d where "strptime date_str = Inr d" by (auto simp: p)
  then obtain dw where dw: "get_week_number (DateStr date_str) = Inr dw"
    by (simp add: get_week_number_def get_program_info_def Let_def)
  have "\<forall>k \<in> set (map fst md). \<exists>d. strptime k = Inr d" using Cons.prems by simp
  from Cons.IH[OF this] show ?case by (simp add: p dw)
qed

lemma month_data_of_keys:
  assumes "month_data_of td y m = Inr md"
  shows "\<forall>k \<in> set (map fst md). \<exists>d. strptime k = Inr d"
  using assms
proof (induction td arbitrary: md)
  case Nil
  then show ?case by simp
next
  case (Cons p td)
  obtain date_str data where p: "p = (date_str, data)" by (cases p)
  from Cons.prems obtain d md0 where d: "strptime date_str = Inr d"
    and md0: "month_data_of td y m = Inr md0"
    and md: "md = (if year d = y \<and> month d = m then (date_str, data) # md0 else md0)"
    by (auto simp: p split: sum.splits)
  from Cons.IH[OF md0] d md show ?case by auto
qed

text \<open>Sorting the weeks: \<^verbatim>\<open>sorted(weekly_data.items())\<close>, whose keys are distinct.\<close>

lemma groups_total_sort: "groups_total k (sort_key fst wd) = groups_total k wd"
proof -
  have "mset (map (\<lambda>(wk, es). int_total k es) (sort_key fst wd))
          = mset (map (\<lambda>(wk, es). int_total k es) wd)"
    by (simp only: mset_map mset_sort)
  then show ?thesis unfolding groups_total_def by (metis sum_mset_sum_list)
qed

lemma map_fst_weekly_summary: "map fst (weekly_summary wd) = map fst (sort_key fst wd)"
  by (simp add: weekly_summary_def case_prod_beta comp_def)

lemma weeks_strictly_sorted:
  assumes "distinct (map fst wd)"
  shows "sorted_wrt (<) (map fst (weekly_summary wd))"
proof -
  have "mset (map fst (sort_key fst wd)) = mset (map fst wd)"
    by (simp only: mset_map mset_sort)
  then have "distinct (map fst (sort_key fst wd))"
    using assms by (metis mset_eq_imp_distinct_iff)
  moreover have "sorted (map fst (sort_key fst wd))" by (rule sorted_sort_key)
  ultimately show ?thesis by (simp only: map_fst_weekly_summary strict_sorted_iff simp_thms)
qed

lemma weekly_summary_rows:
  assumes "(w, s) \<in> set (weekly_summary wd)"
  shows "\<exists>es. (w, es) \<in> set wd \<and> s = get_summary_stats_py (enumerate_days es)"
  using assms by (auto simp: weekly_summary_def)

lemma weekly_rows_int:
  assumes "k \<in> set int_total_keys"
    and "\<forall>(w, es) \<in> set wd. es \<noteq> [] \<and> (\<forall>r \<in> set es. int_fields r)"
  shows "map (\<lambda>(w, s). getitem s k) (weekly_summary wd)
           = map (\<lambda>v. Inr (PyInt v)) (map (\<lambda>(w, es). int_total k es) (sort_key fst wd))"
proof -
  have "\<forall>(w, es) \<in> set (sort_key fst wd). es \<noteq> [] \<and> (\<forall>r \<in> set es. int_fields r)"
    using assms(2) by simp
  then show ?thesis
    unfolding weekly_summary_def
    by (induction "sort_key fst wd" arbitrary: wd)
       (auto simp: week_stats_int_total[OF assms(1)])
qed

lemma entry_of_distinct:
  assumes "distinct (map fst wd)" and "(w, es) \<in> set wd"
  shows "entries_of wd w = es"
  using assms by (simp add: entries_of_def)

lemma week_records_subset: "set (week_records md w) \<subseteq> set (map snd md)"
  by (auto simp: week_records_def)

text \<open>The month filter on the example store, and the typed view on the two stores.\<close>

lemma example_month_data: "month_data_of example_store 2025 6 = Inr example_month"
  by code_simp

lemma steps_store_view:
  "show_monthly_summary steps_store 2025 6
     = Inr (Some (get_summary_stats_py steps_store, steps_rows))"
  by code_simp

section \<open>Claim about the monthly view\<close>

text \<open>
  Claim C8, as stated: partitioning a month by the stored week, aggregating each partition
  and summing the totals of the partitions reproduces the totals of the aggregation of
  the whole month, also for the total exercise time. It fails for the total exercise
  time: that is a float, the result of the rounded division of the steps by 100. For two
  days in two weeks with 3000 and 3077 steps the weekly rows hold the floats 30.0 and
  30.77 and the month holds the float 60.77, which is neither the exact sum nor the
  float sum (60.769999999999996) of the two.
\<close>

theorem monthly_partition_sum_counterexample:
  "show_monthly_summary steps_store 2025 6
     = Inr (Some (get_summary_stats_py steps_store, steps_rows))
   \<and> map (\<lambda>(w, s). getitem s ''total_exercise_time'') steps_rows
       = [Inr (PyFloat 30), Inr (PyFloat (8660985033386885 / 281474976710656))]
   \<and> getitem (get_summary_stats_py steps_store) ''total_exercise_time''
       = Inr (PyFloat (8552617167353283 / 140737488355328))
   \<and> (30 :: rat) + 8660985033386885 / 281474976710656 \<noteq> 8552617167353283 / 140737488355328
   \<and> py_add (PyFloat 30) (PyFloat (8660985033386885 / 281474976710656))
       \<noteq> PyFloat (8552617167353283 / 140737488355328)"
proof -
  have a: "map (\<lambda>(w, s). getitem s ''total_exercise_time'') steps_rows
       = [Inr (PyFloat 30), Inr (PyFloat (8660985033386885 / 281474976710656))]"
    by code_simp
  have b: "getitem (get_summary_stats_py steps_store) ''total_exercise_time''
       = Inr (PyFloat (8552617167353283 / 140737488355328))"
    by code_simp
  have c: "(30 :: rat) + 8660985033386885 / 281474976710656 \<noteq> 8552617167353283 / 140737488355328"
    by simp
  have d: "py_add (PyFloat 30) (PyFloat (8660985033386885 / 281474976710656))
       \<noteq> PyFloat (8552617167353283 / 140737488355328)"
    by code_simp
  show ?thesis using steps_store_view a b c d by blast
qed

text \<open>
  Claim C8, amended. For every non-empty set of records of a month whose treadmill time,
  steps and lunch walk time are ints (as the entry form stores them), the weekly rows of
  \<^verbatim>\<open>show_monthly_summary\<close> are, in ascending order of the week, the aggregations of the
  partition of the set by the stored week of each record (the week of the date when none
  is stored). The number of days, the totals of treadmill time, steps and lunch walk time
  and the number of strength sessions of the rows sum to those of the aggregation of the
  whole month. The total exercise time of each row and of the month is the float that
  line 75 computes from the totals of that set; the floats of the rows need not sum to
  the float of the month.
\<close>

theorem monthly_partition_sum:
  assumes "month_data_of td y m = Inr md" and "md \<noteq> []"
    and "\<forall>(date_str, data) \<in> set md. int_fields data"
  shows "\<exists>rows. show_monthly_summary td y m = Inr (Some (get_summary_stats_py md, rows))
           \<and> sorted_wrt (<) (map fst rows)
           \<and> set (map fst rows) = (\<lambda>(date_str, data). stored_week date_str data) ` set md
           \<and> (\<forall>(w, s) \<in> set rows.
                 s = get_summary_stats_py (enumerate_days (week_records md w)))
           \<and> (\<forall>k \<in> set int_total_keys.
                 \<exists>vs. map (\<lambda>(w, s). getitem s k) rows = map (\<lambda>v. Inr (PyInt v)) vs
                    \<and> getitem (get_summary_stats_py md) k = Inr (PyInt (sum_list vs)))
           \<and> getitem (get_summary_stats_py md) ''total_exercise_time''
                = Inr (composite (map snd md))
           \<and> (\<forall>(w, s) \<in> set rows.
                 getitem s ''total_exercise_time'' = Inr (composite (week_records md w)))"
proof -
  have td: "td \<noteq> []" using assms by auto
  have ints: "\<forall>r \<in> set (map snd md). int_fields r" using assms(3) by auto
  obtain wd where wd: "group_weeks md [] = Inr wd"
    using group_weeks_returns[OF month_data_of_keys[OF assms(1)], of "[]"] by blast
  have ne: "\<forall>(w, es) \<in> set wd. es \<noteq> []"
    using group_weeks_invariant(2)[OF wd] by simp
  have di: "distinct (map fst wd)"
    using group_weeks_invariant(3)[OF wd] by simp
  have keys: "set (map fst wd) = (\<lambda>(date_str, data). stored_week date_str data) ` set md"
    using group_weeks_invariant(4)[OF wd] by simp
  have tot: "groups_total k wd = int_total k (map snd md)" for k
    using group_weeks_invariant(1)[OF wd, of k] by (simp add: groups_total_def)
  have ent: "entries_of wd w = week_records md w" for w
    using group_weeks_invariant(5)[OF wd, of w] by (simp add: entries_of_def)
  have part: "es = week_records md w" if "(w, es) \<in> set wd" for w es
    using entry_of_distinct[OF di that] ent[of w] by simp
  have good: "\<forall>(w, es) \<in> set wd. es \<noteq> [] \<and> (\<forall>r \<in> set es. int_fields r)"
  proof -
    have "\<forall>r \<in> set es. int_fields r" if "(w, es) \<in> set wd" for w es
      using part[OF that] week_records_subset[of md w] ints by blast
    with ne show ?thesis by blast
  qed
  define rows where "rows = weekly_summary wd"
  have 1: "show_monthly_summary td y m = Inr (Some (get_summary_stats_py md, rows))"
    using td assms(1,2) wd by (simp add: show_monthly_summary_def Let_def rows_def)
  have 2: "sorted_wrt (<) (map fst rows)"
    unfolding rows_def by (rule weeks_strictly_sorted[OF di])
  have 3: "set (map fst rows) = (\<lambda>(date_str, data). stored_week date_str data) ` set md"
    unfolding rows_def map_fst_weekly_summary using keys by simp
  have row: "\<exists>es. (w, es) \<in> set wd \<and> es = week_records md w \<and> es \<noteq> []
                 \<and> (\<forall>r \<in> set es. int_fields r)
                 \<and> s = get_summary_stats_py (enumerate_days es)"
    if "(w, s) \<in> set rows" for w s
  proof -
    from weekly_summary_rows[OF that[unfolded rows_def]] obtain es
      where es: "(w, es) \<in> set wd" "s = get_summary_stats_py (enumerate_days es)" by blast
    with part[OF es(1)] good show ?thesis by blast
  qed
  have 4: "\<forall>(w, s) \<in> set rows. s = get_summary_stats_py (enumerate_days (week_records md w))"
    using row by blast
  have 5: "\<exists>vs. map (\<lambda>(w, s). getitem s k) rows = map (\<lambda>v. Inr (PyInt v)) vs
              \<and> getitem (get_summary_stats_py md) k = Inr (PyInt (sum_list vs))"
    if k: "k \<in> set int_total_keys" for k
  proof -
    let ?vs = "map (\<lambda>(w, es). int_total k es) (sort_key fst wd)"
    have "sum_list ?vs = groups_total k wd"
      using groups_total_sort[of k wd] by (simp add: groups_total_def)
    then have "getitem (get_summary_stats_py md) k = Inr (PyInt (sum_list ?vs))"
      using getitem_int_total[OF k assms(2) ints] by (simp add: tot)
    with weekly_rows_int[OF k good] show ?thesis unfolding rows_def by blast
  qed
  have 6: "getitem (get_summary_stats_py md) ''total_exercise_time''
             = Inr (composite (map snd md))"
    by (rule getitem_composite[OF assms(2) ints])
  have 7: "\<forall>(w, s) \<in> set rows.
             getitem s ''total_exercise_time'' = Inr (composite (week_records md w))"
  proof -
    have "getitem s ''total_exercise_time'' = Inr (composite (week_records md w))"
      if "(w, s) \<in> set rows" for w s
    proof -
      from row[OF that] obtain es where es: "es = week_records md w" "es \<noteq> []"
        "\<forall>r \<in> set es. int_fields r" "s = get_summary_stats_py (enumerate_days es)" by blast
      show ?thesis using week_stats_composite[OF es(2,3)] es(1,4) by simp
    qed
    then show ?thesis by blast
  qed
  show ?thesis using 1 2 3 4 5 6 7 by blast
qed

theorem monthly_partition_sum_witness:
  "month_data_of example_store 2025 6 = Inr example_month \<and> example_month \<noteq> []
   \<and> list_all (\<lambda>(date_str, data). int_fields data) example_month
   \<and> (\<exists>rows vs. show_monthly_summary example_store 2025 6
                = Inr (Some (get_summary_stats_py example_month, rows))
         \<and> sorted_wrt (<) (map fst rows)
         \<and> set (map fst rows) = {1, 3}
         \<and> map (\<lambda>(w, s). getitem s ''total_steps'') rows = map (\<lambda>v. Inr (PyInt v)) vs
         \<and> sum_list vs = 1510)"
proof -
  have ne: "example_month \<noteq> []" by (simp add: example_month_def)
  have la: "list_all (\<lambda>(date_str, data). int_fields data) example_month"
    by (simp add: example_month_def int_fields_def is_int_field_def zero_py_def blank_py_def)
  then have ints: "\<forall>(date_str, data) \<in> set example_month. int_fields data"
    by (simp add: list_all_iff)
  have k: "''total_steps'' \<in> set int_total_keys" by (simp add: int_total_keys_def)
  have v: "getitem (get_summary_stats_py example_month) ''total_steps'' = Inr (PyInt 1510)"
    by code_simp
  have w: "(\<lambda>(date_str, data). stored_week date_str data) ` set example_month = {1, 3}"
  proof -
    have "map (\<lambda>(date_str, data). stored_week date_str data) example_month = [1, 3, 1]"
      by code_simp
    then have "set (map (\<lambda>(date_str, data). stored_week date_str data) example_month)
                 = set [1, 3, 1]"
      by (rule arg_cong)
    then show ?thesis by (simp only: set_map) auto
  qed
  from monthly_partition_sum[OF example_month_data ne ints] k
  obtain rows vs where
    "show_monthly_summary example_store 2025 6
       = Inr (Some (get_summary_stats_py example_month, rows))"
    "sorted_wrt (<) (map fst rows)"
    "set (map fst rows) = (\<lambda>(date_str, data). stored_week date_str data) ` set example_month"
    "map (\<lambda>(w, s). getitem s ''total_steps'') rows = map (\<lambda>v. Inr (PyInt v)) vs"
    "getitem (get_summary_stats_py example_month) ''total_steps'' = Inr (PyInt (sum_list vs))"
    by blast
  then show ?thesis using example_month_data ne la v w by auto
qed

end
